theory Spec2Isabelle
  imports Complex_Main
begin

section \<open>Values and dictionaries\<close>

text \<open>
  The program is one Python class, \<open>Data\<close>, that wraps a nested dictionary.  Python
  values are modelled as trees: a scalar, a list, a dictionary (an association list in
  insertion order, as a Python \<open>dict\<close> iterates) or an instance of \<open>Data\<close>.  An
  instance carries its identity (a number handed out at construction) and the value bound
  to its one instance attribute \<open>_data\<close>; the instance an operation runs on is the
  pair of the two (\<open>inst\<close>), and \<open>VData i d\<close> is the same instance held as a value.
  Values are trees, and an in-place update of a nested dictionary is the functional update
  at the position it is made through; a tree does not show whether the same dictionary is
  held at a second position, and what follows from that is said with \<open>in_place_free\<close>
  below.  A dictionary that contains itself is not a value of the model.  Dictionary keys
  are strings, as keyword arguments require.  Callables, classes and dataclasses other
  than \<open>Data\<close> are not values of the model.  A float is the rational its literal
  denotes; the program only stores and returns it.
\<close>

datatype error = TypeError | AttributeError

datatype val =
    VNone
  | VBool bool
  | VInt int
  | VFloat rat
  | VStr string
  | VList "val list"
  | VDict "(string \<times> val) list"
  | VData nat val

type_synonym py_dict = "(string \<times> val) list"

definition dict_keys :: "py_dict \<Rightarrow> string list" where
  "dict_keys d = map fst d"

text \<open>\<open>d[k] = v\<close>: an existing key keeps its position, a new key goes last.\<close>

fun dict_set :: "string \<Rightarrow> val \<Rightarrow> py_dict \<Rightarrow> py_dict" where
  "dict_set k v [] = [(k, v)]"
| "dict_set k v ((k', v') # d) = (if k' = k then (k, v) # d else (k', v') # dict_set k v d)"

text \<open>\<open>dict(items)\<close>: the pairs are inserted from left to right.\<close>

fun dict_of_items :: "py_dict \<Rightarrow> (string \<times> val) list \<Rightarrow> py_dict" where
  "dict_of_items d [] = d"
| "dict_of_items d ((k, v) # items) = dict_of_items (dict_set k v d) items"

text \<open>\<open>d.setdefault(k, v)\<close>, for its effect on \<open>d\<close>.\<close>

definition setdefault :: "string \<Rightarrow> val \<Rightarrow> py_dict \<Rightarrow> py_dict" where
  "setdefault k v d = (if k \<in> set (dict_keys d) then d else dict_set k v d)"

text \<open>\<open>sub in s\<close> for two strings, and \<open>attr.startswith('_')\<close>.\<close>

definition str_contains :: "string \<Rightarrow> string \<Rightarrow> bool" where
  "str_contains sub s = list_ex (\<lambda>i. take (length sub) (drop i s) = sub) [0..<Suc (length s)]"

fun startswith_underscore :: "string \<Rightarrow> bool" where
  "startswith_underscore [] = False"
| "startswith_underscore (c # cs) = (c = CHR ''_'')"

text \<open>
  The error of \<open>x.m()\<close> for a method \<open>m\<close> of \<open>dict\<close> (\<open>items\<close>, \<open>setdefault\<close>)
  when \<open>x\<close> is not a dictionary.  A scalar or a list has no such attribute.  On an
  instance of \<open>Data\<close> the name goes through \<open>__getattr__\<close>.  With a dictionary as
  \<open>_data\<close> that returns a value, which is not callable (TypeError), unless the name is a
  top-level key bound to a mapping: the mapping is wrapped first, and the error of a failed
  wrap is the error raised.  With a string or a list as \<open>_data\<close> a hit fails at
  \<open>self._data[attr]\<close> (TypeError) and a miss at \<open>.items()\<close> inside the flattening
  (AttributeError); anything else fails at \<open>attr in self._data\<close> (TypeError).
  \<open>wrap_error kwargs\<close> is the error \<open>Data(**kwargs)\<close> raises, if it raises: the
  keyword \<open>self\<close>, a \<open>metadata\<close> that is not a dictionary, or \<open>setdefault\<close> on a
  \<open>system\<close> that is not one.
\<close>

function method_error :: "string \<Rightarrow> val \<Rightarrow> error"
  and wrap_error :: "py_dict \<Rightarrow> error option" where
  "method_error m (VData i (VStr s)) = (if str_contains m s then TypeError else AttributeError)"
| "method_error m (VData i (VList xs)) = (if VStr m \<in> set xs then TypeError else AttributeError)"
| "method_error m (VData i (VDict store)) =
     (case map_of store m of
        Some (VDict value) \<Rightarrow> (case wrap_error value of Some e \<Rightarrow> e | None \<Rightarrow> TypeError)
      | _ \<Rightarrow> TypeError)"
| "method_error m (VData i VNone) = TypeError"
| "method_error m (VData i (VBool b)) = TypeError"
| "method_error m (VData i (VInt n)) = TypeError"
| "method_error m (VData i (VFloat q)) = TypeError"
| "method_error m (VData i (VData j d)) = TypeError"
| "method_error m VNone = AttributeError"
| "method_error m (VBool b) = AttributeError"
| "method_error m (VInt n) = AttributeError"
| "method_error m (VFloat q) = AttributeError"
| "method_error m (VStr s) = AttributeError"
| "method_error m (VList xs) = AttributeError"
| "method_error m (VDict d) = AttributeError"
| "wrap_error kwargs =
     (if ''self'' \<in> set (dict_keys kwargs) then Some TypeError
      else case map_of kwargs ''metadata'' of
             None \<Rightarrow> None
           | Some (VDict metadata) \<Rightarrow>
               (case map_of metadata ''system'' of
                  None \<Rightarrow> None
                | Some (VDict system) \<Rightarrow> None
                | Some other \<Rightarrow> Some (method_error ''setdefault'' other))
           | Some other \<Rightarrow> Some TypeError)"
  by pat_completeness auto
termination
proof -
  have one: "map_of d k = Some v \<Longrightarrow> size v < Suc (size_list (size_prod (\<lambda>x. 0) size) d)"
    for d :: py_dict and k v
    by (induction d) (auto split: if_splits)
  have two: "map_of d k = Some (VDict x) \<Longrightarrow> map_of x k' = Some v \<Longrightarrow>
      size v < size_list (size_prod (\<lambda>x. 0) size) d"
    for d x :: py_dict and k k' v
    using one [of d k "VDict x"] one [of x k' v] by simp
  show ?thesis
    by (relation "measure (\<lambda>x. case x of
          Inl (m, v) \<Rightarrow> size v
        | Inr d \<Rightarrow> Suc (size_list (size_prod (\<lambda>x. 0) size) d))")
       (auto dest: one dest: two)
qed

section \<open>Construction and default values\<close>

text \<open>
  \<open>_set_default_values\<close>, on the store \<open>kwargs\<close> that \<open>__init__\<close> has just bound.
  \<open>"system" not in metadata\<close> and the item assignment that follows raise TypeError
  whenever \<open>metadata\<close> is not a dictionary; \<open>system.setdefault\<close> fails as
  \<open>method_error\<close> says when \<open>system\<close> is not one.  A lookup right after
  \<open>ensure_key\<close> finds the key, so the branches for \<open>None\<close> are never taken.
\<close>

definition ensure_key :: "string \<Rightarrow> py_dict \<Rightarrow> py_dict" where
  "ensure_key k d = (if k \<notin> set (dict_keys d) then dict_set k (VDict []) d else d)"

definition set_default_values :: "py_dict \<Rightarrow> error + py_dict" where
  "set_default_values d =
     (let d1 = ensure_key ''metadata'' d in
      case map_of d1 ''metadata'' of
        Some (VDict metadata) \<Rightarrow>
          (let m1 = ensure_key ''system'' metadata in
           case map_of m1 ''system'' of
             Some (VDict system) \<Rightarrow>
               Inr (dict_set ''metadata''
                     (VDict (dict_set ''system''
                       (VDict (setdefault ''size'' (VInt 10)
                                (setdefault ''height'' (VInt 100) system))) m1)) d1)
           | Some other \<Rightarrow> Inl (method_error ''setdefault'' other)
           | None \<Rightarrow> Inl TypeError)
      | _ \<Rightarrow> Inl TypeError)"

text \<open>
  \<open>Data(**kwargs)\<close>: the keyword \<open>self\<close> collides with the first parameter of
  \<open>__init__(self, **kwargs)\<close> and raises TypeError; otherwise the instance takes the next
  identity \<open>c\<close>, binds \<open>_data\<close> to the keyword dictionary and injects the defaults.
\<close>

type_synonym inst = "nat \<times> val"

definition Data_init :: "nat \<Rightarrow> py_dict \<Rightarrow> error + (inst \<times> nat)" where
  "Data_init c kwargs =
     (if ''self'' \<in> set (dict_keys kwargs) then Inl TypeError
      else case set_default_values kwargs of
             Inl e \<Rightarrow> Inl e
           | Inr d \<Rightarrow> Inr ((c, VDict d), Suc c))"

text \<open>\<open>from_dict\<close> is \<open>cls(**data_dict)\<close>.\<close>

definition from_dict :: "nat \<Rightarrow> py_dict \<Rightarrow> error + (inst \<times> nat)" where
  "from_dict c data_dict = Data_init c data_dict"

section \<open>Flattening\<close>

text \<open>
  The loop of \<open>flatten_dict\<close> with its accumulator \<open>items\<close>: a dictionary value
  contributes the items of its own flattened dictionary first, then every entry is
  appended itself.  Only plain dictionaries pass \<open>isinstance(value, dict)\<close>; an
  instance of \<open>Data\<close> does not.
\<close>

fun flatten_loop :: "(string \<times> val) list \<Rightarrow> py_dict \<Rightarrow> (string \<times> val) list" where
  "flatten_loop items [] = items"
| "flatten_loop items ((key, value) # rest) =
     flatten_loop
       ((case value of
           VDict d \<Rightarrow> items @ dict_of_items [] (flatten_loop [] d)
         | _ \<Rightarrow> items) @ [(key, value)])
       rest"

text \<open>
  \<open>flat d\<close> is what \<open>flatten_dict\<close> returns on a dictionary, \<open>dict(items)\<close>; on
  anything else \<open>data.items()\<close> fails.
\<close>

definition flat :: "py_dict \<Rightarrow> py_dict" where
  "flat d = dict_of_items [] (flatten_loop [] d)"

definition flatten_dict :: "val \<Rightarrow> error + py_dict" where
  "flatten_dict data =
     (case data of
        VDict d \<Rightarrow> Inr (flat d)
      | _ \<Rightarrow> Inl (method_error ''items'' data))"

section \<open>Attribute access\<close>

text \<open>
  Default attribute resolution (\<open>object.__getattribute__\<close>) finds the instance
  attribute \<open>_data\<close>, the names bound in the class body, and the names the class inherits
  from \<open>object\<close> or receives from the \<open>dataclass\<close> decorator.  The last are not in
  the source: they are the parameter \<open>inh\<close>, and since all of them begin with two
  underscores only such names are looked up there.
\<close>

definition class_attrs :: "string list" where
  "class_attrs =
     [''__init__'', ''from_dict'', ''to_dict'', ''_convert_dataclasses_to_dict'',
      ''__getattr__'', ''__setattr__'', ''flatten_dict'', ''_set_default_values'',
      ''__dir__'']"

datatype looked = Val val | Bound string

definition on_class :: "string list \<Rightarrow> string \<Rightarrow> bool" where
  "on_class inh attr = (attr \<in> set class_attrs \<or> (take 2 attr = ''__'' \<and> attr \<in> set inh))"

definition object_getattribute :: "string list \<Rightarrow> inst \<Rightarrow> string \<Rightarrow> error + looked" where
  "object_getattribute inh self attr =
     (if attr = ''_data'' then Inr (Val (snd self))
      else if on_class inh attr then Inr (Bound attr)
      else Inl AttributeError)"

text \<open>
  \<open>__getattr__\<close>.  The result is what was found, the instance after the call (a
  dictionary found at the top level is replaced by a new instance wrapping it) and the next
  free identity.  When \<open>_data\<close> is not a dictionary, \<open>attr in self._data\<close> is a
  substring or membership test, or raises; a hit then fails at \<open>self._data[attr]\<close>.
\<close>

definition getattr_else :: "string list \<Rightarrow> nat \<Rightarrow> inst \<Rightarrow> string \<Rightarrow> error + (looked \<times> inst \<times> nat)" where
  "getattr_else inh c self attr =
     (if startswith_underscore attr then
        (case object_getattribute inh self attr of
           Inl e \<Rightarrow> Inl e
         | Inr l \<Rightarrow> Inr (l, self, c))
      else
        (case flatten_dict (snd self) of
           Inl e \<Rightarrow> Inl e
         | Inr flatten_data \<Rightarrow>
             Inr (Val (case map_of flatten_data attr of Some v \<Rightarrow> v | None \<Rightarrow> VNone), self, c)))"

definition getattr_hook :: "string list \<Rightarrow> nat \<Rightarrow> inst \<Rightarrow> string \<Rightarrow> error + (looked \<times> inst \<times> nat)" where
  "getattr_hook inh c self attr =
     (case snd self of
        VDict store \<Rightarrow>
          (case map_of store attr of
             Some (VDict value) \<Rightarrow>
               (case Data_init c value of
                  Inl e \<Rightarrow> Inl e
                | Inr ((j, w), c') \<Rightarrow>
                    Inr (Val (VData j w), (fst self, VDict (dict_set attr (VData j w) store)), c'))
           | Some value \<Rightarrow> Inr (Val value, self, c)
           | None \<Rightarrow> getattr_else inh c self attr)
      | VStr s \<Rightarrow>
          (if str_contains attr s then Inl TypeError else getattr_else inh c self attr)
      | VList xs \<Rightarrow>
          (if VStr attr \<in> set xs then Inl TypeError else getattr_else inh c self attr)
      | _ \<Rightarrow> Inl TypeError)"

text \<open>
  Reading \<open>self.attr\<close>: default resolution first, \<open>__getattr__\<close> when it raises
  AttributeError.
\<close>

definition read_attribute :: "string list \<Rightarrow> nat \<Rightarrow> inst \<Rightarrow> string \<Rightarrow> error + (looked \<times> inst \<times> nat)" where
  "read_attribute inh c self attr =
     (case object_getattribute inh self attr of
        Inr l \<Rightarrow> Inr (l, self, c)
      | Inl e \<Rightarrow> getattr_hook inh c self attr)"

text \<open>
  \<open>__setattr__\<close>, which every assignment \<open>self.attr = value\<close> goes through.  Item
  assignment on anything but a dictionary raises TypeError.
\<close>

definition setattr_hook :: "inst \<Rightarrow> string \<Rightarrow> val \<Rightarrow> error + inst" where
  "setattr_hook self attr value =
     (if attr = ''_data'' then Inr (fst self, value)
      else case snd self of
             VDict store \<Rightarrow> Inr (fst self, VDict (dict_set attr value store))
           | _ \<Rightarrow> Inl TypeError)"

section \<open>Conversion to a plain dictionary\<close>

text \<open>
  \<open>_convert_dataclasses_to_dict\<close> and its loop over \<open>data.items()\<close> with the
  accumulator \<open>result\<close>.  \<open>is_dataclass(value)\<close> holds for the instances of
  \<open>Data\<close>, whose \<open>to_dict()\<close> converts their own \<open>_data\<close>.
\<close>

fun convert_dataclasses_to_dict :: "val \<Rightarrow> error + py_dict"
  and convert_loop :: "py_dict \<Rightarrow> (string \<times> val) list \<Rightarrow> error + py_dict" where
  "convert_dataclasses_to_dict (VDict items) = convert_loop [] items"
| "convert_dataclasses_to_dict data = Inl (method_error ''items'' data)"
| "convert_loop result [] = Inr result"
| "convert_loop result ((key, value) # rest) =
     (case value of
        VData i d \<Rightarrow>
          (case convert_dataclasses_to_dict d of
             Inl e \<Rightarrow> Inl e
           | Inr r \<Rightarrow> convert_loop (dict_set key (VDict r) result) rest)
      | VDict d \<Rightarrow>
          (case convert_dataclasses_to_dict value of
             Inl e \<Rightarrow> Inl e
           | Inr r \<Rightarrow> convert_loop (dict_set key (VDict r) result) rest)
      | _ \<Rightarrow> convert_loop (dict_set key value result) rest)"

definition to_dict :: "inst \<Rightarrow> error + py_dict" where
  "to_dict self = convert_dataclasses_to_dict (snd self)"

section \<open>The example of the source\<close>

text \<open>The nested part of the dictionary the source builds its first instance from.\<close>

definition example_system :: py_dict where
  "example_system = [(''size'', VFloat (107 / 10)), (''height'', VInt 11)]"

definition example_user :: py_dict where
  "example_user = [(''batch'', VInt 1121)]"

definition example_metadata :: py_dict where
  "example_metadata = [(''system'', VDict example_system), (''user'', VDict example_user)]"

definition example_store :: py_dict where
  "example_store = [(''metadata'', VDict example_metadata)]"

section \<open>Shapes of dictionaries\<close>

text \<open>
  \<open>sub_dict d k\<close> is the dictionary stored under \<open>k\<close>, empty when there is none.
  A keyword dictionary is \<open>wellshaped\<close> when \<open>metadata\<close>, if present, is a plain
  dictionary and \<open>system\<close> in it, if present, is one too; \<open>with_defaults\<close> is the
  store default injection then leaves.
\<close>

definition sub_dict :: "py_dict \<Rightarrow> string \<Rightarrow> py_dict" where
  "sub_dict d k = (case map_of d k of Some (VDict x) \<Rightarrow> x | _ \<Rightarrow> [])"

definition wellshaped :: "py_dict \<Rightarrow> bool" where
  "wellshaped d =
     (case map_of d ''metadata'' of
        None \<Rightarrow> True
      | Some (VDict m) \<Rightarrow>
          (case map_of m ''system'' of None \<Rightarrow> True | Some (VDict s) \<Rightarrow> True | Some _ \<Rightarrow> False)
      | Some _ \<Rightarrow> False)"

text \<open>
  The program changes three kinds of object in place: the keyword dictionary of a
  construction, which is new; the \<open>metadata\<close> dictionary found in it, when that lacks
  \<open>system\<close>; and the \<open>system\<close> dictionary found there, when that lacks \<open>height\<close>
  or \<open>size\<close>.  A tree shows such a change at the position it is made through.  Where the
  caller holds the changed \<open>metadata\<close> or \<open>system\<close> dictionary under a second key as
  well, the code shows the change there too, and the tree does not.  So the theorems below
  say of the state after a construction only what holds however the caller's dictionaries
  are shared: the entries of \<open>metadata.system\<close> (a value held there cannot contain
  the dictionary that holds it), the keys, and the scalars (\<open>atom\<close>), which nothing
  can change.  They give the whole state where no dictionary of
  the caller is changed at all (\<open>in_place_free\<close>): \<open>metadata\<close> is absent, so that a
  new dictionary is made for it, or both defaults are already there.
\<close>

fun atom :: "val \<Rightarrow> bool" where
  "atom (VList xs) = False"
| "atom (VDict d) = False"
| "atom (VData i d) = False"
| "atom v = True"

definition with_defaults :: "py_dict \<Rightarrow> py_dict" where
  "with_defaults d =
     dict_set ''metadata''
       (VDict (dict_set ''system''
          (VDict (setdefault ''size'' (VInt 10)
                   (setdefault ''height'' (VInt 100) (sub_dict (sub_dict d ''metadata'') ''system''))))
          (sub_dict d ''metadata''))) d"

section \<open>The walk order of the specification\<close>

text \<open>
  The walk the specification describes for the flattened view: for each entry, in
  iteration order, first the walk of its value when that is a mapping, then the entry
  itself.  A later pair overwrites an earlier one with the same key.
\<close>

fun walk_spec :: "py_dict \<Rightarrow> (string \<times> val) list" where
  "walk_spec [] = []"
| "walk_spec ((key, value) # rest) =
     (case value of VDict d \<Rightarrow> walk_spec d | _ \<Rightarrow> []) @ [(key, value)] @ walk_spec rest"

section \<open>Further example instances\<close>

text \<open>
  The store of \<open>Data()\<close>, a dictionary with one key at two depths, and the dictionary
  \<open>{"metadata": {"system": {"height": 11, "size": 10.7}}}\<close> with the instance that
  wraps its \<open>metadata\<close> entry once that has been read.
\<close>

definition default_system :: py_dict where
  "default_system = [(''height'', VInt 100), (''size'', VInt 10)]"

definition default_store :: py_dict where
  "default_store = [(''metadata'', VDict [(''system'', VDict default_system)])]"

definition collision_store :: py_dict where
  "collision_store = [(''a'', VDict [(''x'', VInt 1)]), (''b'', VDict [(''a'', VInt 5)])]"

definition supplied_system :: py_dict where
  "supplied_system = [(''height'', VInt 11), (''size'', VFloat (107 / 10))]"

definition supplied_store :: py_dict where
  "supplied_store = [(''metadata'', VDict [(''system'', VDict supplied_system)])]"

definition wrapped_metadata :: val where
  "wrapped_metadata =
     VDict [(''system'', VDict supplied_system),
            (''metadata'', VDict [(''system'', VDict default_system)])]"

section \<open>The conversion rule of the specification\<close>

text \<open>
  The rule the specification gives for one value: an instance is replaced by the result of
  its own \<open>to_dict\<close>, a mapping by its recursive conversion, anything else (a list
  too, whatever it holds) is kept.  \<open>convert_entries_spec\<close> applies it to the entries
  in order; the first failure is the failure of the whole.
\<close>

definition convert_value_spec :: "val \<Rightarrow> error + val" where
  "convert_value_spec v =
     (case v of
        VData i d \<Rightarrow> map_sum id VDict (to_dict (i, d))
      | VDict d \<Rightarrow> map_sum id VDict (convert_dataclasses_to_dict (VDict d))
      | _ \<Rightarrow> Inr v)"

fun convert_entries_spec :: "py_dict \<Rightarrow> error + py_dict" where
  "convert_entries_spec [] = Inr []"
| "convert_entries_spec ((key, value) # rest) =
     (case convert_value_spec value of
        Inl e \<Rightarrow> Inl e
      | Inr v \<Rightarrow>
          (case convert_entries_spec rest of
             Inl e \<Rightarrow> Inl e
           | Inr r \<Rightarrow> Inr ((key, v) # r)))"

section \<open>Well-formed and plain dictionaries\<close>

text \<open>
  A Python dictionary has distinct keys: \<open>wf_val\<close> says so of every dictionary reached
  through dictionaries and instances.  \<open>no_records\<close> says that no instance of \<open>Data\<close>
  is reached through dictionaries (lists are not entered: nothing in the program looks into
  them).  \<open>defines_defaults\<close> says that \<open>metadata.system.height\<close> and
  \<open>metadata.system.size\<close> are there; \<open>lacks_system\<close> that \<open>metadata\<close> is absent, or
  is a mapping without \<open>system\<close>.
\<close>

fun wf_val :: "val \<Rightarrow> bool" and wf_items :: "py_dict \<Rightarrow> bool" where
  "wf_val (VDict d) = (distinct (map fst d) \<and> wf_items d)"
| "wf_val (VData i d) = wf_val d"
| "wf_val v = True"
| "wf_items [] = True"
| "wf_items ((k, v) # rest) = (wf_val v \<and> wf_items rest)"

fun no_records :: "val \<Rightarrow> bool" and no_records_items :: "py_dict \<Rightarrow> bool" where
  "no_records (VDict d) = no_records_items d"
| "no_records (VData i d) = False"
| "no_records v = True"
| "no_records_items [] = True"
| "no_records_items ((k, v) # rest) = (no_records v \<and> no_records_items rest)"

definition defines_defaults :: "py_dict \<Rightarrow> bool" where
  "defines_defaults m =
     (case map_of m ''metadata'' of
        Some (VDict metadata) \<Rightarrow>
          (case map_of metadata ''system'' of
             Some (VDict system) \<Rightarrow>
               ''height'' \<in> set (dict_keys system) \<and> ''size'' \<in> set (dict_keys system)
           | _ \<Rightarrow> False)
      | _ \<Rightarrow> False)"

definition in_place_free :: "py_dict \<Rightarrow> bool" where
  "in_place_free d = (map_of d ''metadata'' = None \<or> defines_defaults d)"

text \<open>The entries of a dictionary other than the one under \<open>k\<close>.\<close>

definition dict_without :: "string \<Rightarrow> py_dict \<Rightarrow> py_dict" where
  "dict_without k d = filter (\<lambda>p. fst p \<noteq> k) d"

definition lacks_system :: "py_dict \<Rightarrow> bool" where
  "lacks_system d =
     (case map_of d ''metadata'' of
        None \<Rightarrow> True
      | Some (VDict metadata) \<Rightarrow> ''system'' \<notin> set (dict_keys metadata)
      | Some _ \<Rightarrow> False)"

text \<open>
  A store with a scalar, a list holding an instance, an instance, and a mapping holding an
  instance.
\<close>

definition mixed_store :: py_dict where
  "mixed_store =
     [(''n'', VInt 1),
      (''xs'', VList [VData 7 (VDict [])]),
      (''inner'', VData 3 (VDict [(''a'', VInt 2)])),
      (''m'', VDict [(''w'', VData 4 (VDict []))])]"

text \<open>The store of \<open>Data(user={"batch": 1121})\<close>.\<close>

definition user_store :: py_dict where
  "user_store =
     [(''user'', VDict example_user), (''metadata'', VDict [(''system'', VDict default_system)])]"

section \<open>Dictionary lemmas\<close>

lemma map_of_dict_set: "map_of (dict_set k v d) = (map_of d)(k \<mapsto> v)"
  by (induction d) (auto simp: fun_eq_iff)

lemma dict_keys_dict_set:
  "dict_keys (dict_set k v d) = (if k \<in> set (dict_keys d) then dict_keys d else dict_keys d @ [k])"
  by (induction d) (force simp: dict_keys_def)+

lemma keys_dict_set: "set (dict_keys (dict_set k v d)) = insert k (set (dict_keys d))"
  by (auto simp: dict_keys_dict_set)

lemma dict_set_new: "k \<notin> set (dict_keys d) \<Longrightarrow> dict_set k v d = d @ [(k, v)]"
  by (induction d) (auto simp: dict_keys_def)


lemma dict_set_same: "map_of d k = Some v \<Longrightarrow> dict_set k v d = d"
  by (induction d) (auto split: if_splits)

lemma distinct_dict_set: "distinct (dict_keys d) \<Longrightarrow> distinct (dict_keys (dict_set k v d))"
  by (simp add: dict_keys_dict_set)

lemma in_keys_iff: "k \<in> set (dict_keys d) \<longleftrightarrow> map_of d k \<noteq> None"
  by (simp add: dict_keys_def map_of_eq_None_iff)

lemma map_of_ensure_key:
  "map_of (ensure_key k d) = (case map_of d k of None \<Rightarrow> (map_of d)(k \<mapsto> VDict []) | Some v \<Rightarrow> map_of d)"
  by (auto simp: ensure_key_def map_of_dict_set in_keys_iff split: option.splits)

lemma map_of_setdefault:
  "map_of (setdefault k v d) = (case map_of d k of None \<Rightarrow> (map_of d)(k \<mapsto> v) | Some w \<Rightarrow> map_of d)"
  by (auto simp: setdefault_def map_of_dict_set in_keys_iff split: option.splits)

text \<open>\<open>wrap_error\<close> is the error of the constructor, and \<open>None\<close> where it returns.\<close>

lemma wrap_error_init:
  "wrap_error d = (case Data_init c d of Inl e \<Rightarrow> Some e | Inr r \<Rightarrow> None)"
proof (cases "map_of d ''metadata''")
  case None
  then have "''metadata'' \<notin> set (dict_keys d)"
    by (simp add: in_keys_iff)
  with None show ?thesis
    by (simp add: Data_init_def set_default_values_def ensure_key_def map_of_dict_set dict_keys_def)
next
  case (Some a)
  then have in_d: "''metadata'' \<in> set (dict_keys d)"
    by (simp add: in_keys_iff)
  show ?thesis
  proof (cases a)
    case (VDict metadata)
    show ?thesis
    proof (cases "map_of metadata ''system''")
      case None
      then have "''system'' \<notin> set (dict_keys metadata)"
        by (simp add: in_keys_iff)
      with None Some VDict in_d show ?thesis
        by (simp add: Data_init_def set_default_values_def ensure_key_def map_of_dict_set dict_keys_def)
    next
      case (Some b)
      then have "''system'' \<in> set (dict_keys metadata)"
        by (simp add: in_keys_iff)
      with Some \<open>map_of d ''metadata'' = Some a\<close> VDict in_d show ?thesis
        by (cases b) (simp_all add: Data_init_def set_default_values_def ensure_key_def)
    qed
  qed (use Some in_d in \<open>simp_all add: Data_init_def set_default_values_def ensure_key_def\<close>)
qed

lemma map_of_dict_of_items: "map_of (dict_of_items d items) = map_of d ++ map_of (rev items)"
  by (induction d items rule: dict_of_items.induct) (auto simp: map_of_dict_set fun_eq_iff map_add_def split: option.splits)

lemma keys_dict_of_items: "set (dict_keys (dict_of_items d items)) = set (dict_keys d) \<union> fst ` set items"
  by (induction d items rule: dict_of_items.induct) (auto simp: keys_dict_set)

lemma distinct_dict_of_items: "distinct (dict_keys d) \<Longrightarrow> distinct (dict_keys (dict_of_items d items))"
  by (induction d items rule: dict_of_items.induct) (auto simp: distinct_dict_set)

section \<open>Reading through the flattened view\<close>

lemma example_from_dict: "from_dict c example_store = Inr ((c, VDict example_store), Suc c)"
  by (simp add: from_dict_def Data_init_def set_default_values_def ensure_key_def setdefault_def
      dict_keys_def example_store_def example_metadata_def example_system_def)

lemma example_flatten:
  "flatten_dict (VDict example_store) =
     Inr [(''size'', VFloat (107 / 10)), (''height'', VInt 11), (''system'', VDict example_system),
          (''batch'', VInt 1121), (''user'', VDict example_user),
          (''metadata'', VDict example_metadata)]"
  by (simp add: flatten_dict_def flat_def example_store_def example_metadata_def
      example_system_def example_user_def)

lemma underscore_free:
  assumes "\<not> startswith_underscore attr"
  shows "attr \<noteq> ''_data''" and "take 2 attr \<noteq> ''__''"
  using assms by (cases attr; auto)+

lemma read_flattened:
  assumes "map_of store attr = None" and "\<not> startswith_underscore attr"
    and "attr \<notin> set class_attrs" and "flatten_dict (VDict store) = Inr view"
  shows "read_attribute inh c (i, VDict store) attr =
           Inr (Val (case map_of view attr of Some v \<Rightarrow> v | None \<Rightarrow> VNone), (i, VDict store), c)"
  using assms underscore_free [OF assms(2)]
  by (simp add: read_attribute_def object_getattribute_def on_class_def getattr_hook_def
      getattr_else_def)

text \<open>
  C1.  The instance built from the example dictionary is that dictionary unchanged (its
  defaults are all supplied); \<open>height\<close>, \<open>size\<close> and \<open>batch\<close> are not among its
  top-level keys and do not start with an underscore, and reading them returns 11, 10.7
  and 1121, found in the flattened view, whatever the inherited names \<open>inh\<close> are.
\<close>

theorem C1_flatten_then_lookup:
  "from_dict c example_store = Inr ((c, VDict example_store), Suc c)
   \<and> dict_keys example_store = [''metadata'']
   \<and> read_attribute inh (Suc c) (c, VDict example_store) ''height''
       = Inr (Val (VInt 11), (c, VDict example_store), Suc c)
   \<and> read_attribute inh (Suc c) (c, VDict example_store) ''size''
       = Inr (Val (VFloat (107 / 10)), (c, VDict example_store), Suc c)
   \<and> read_attribute inh (Suc c) (c, VDict example_store) ''batch''
       = Inr (Val (VInt 1121), (c, VDict example_store), Suc c)"
proof -
  have top: "map_of example_store ''height'' = None" "map_of example_store ''size'' = None"
    "map_of example_store ''batch'' = None"
    by (simp_all add: example_store_def)
  have cls: "''height'' \<notin> set class_attrs" "''size'' \<notin> set class_attrs"
    "''batch'' \<notin> set class_attrs"
    by (simp_all add: class_attrs_def)
  have "read_attribute inh (Suc c) (c, VDict example_store) ''height''
       = Inr (Val (VInt 11), (c, VDict example_store), Suc c)"
    using read_flattened [OF top(1) _ cls(1) example_flatten] by simp
  moreover have "read_attribute inh (Suc c) (c, VDict example_store) ''size''
       = Inr (Val (VFloat (107 / 10)), (c, VDict example_store), Suc c)"
    using read_flattened [OF top(2) _ cls(2) example_flatten] by simp
  moreover have "read_attribute inh (Suc c) (c, VDict example_store) ''batch''
       = Inr (Val (VInt 1121), (c, VDict example_store), Suc c)"
    using read_flattened [OF top(3) _ cls(3) example_flatten] by simp
  ultimately show ?thesis
    by (simp add: example_from_dict) (simp add: example_store_def dict_keys_def)
qed

section \<open>Default injection\<close>

lemma dict_set_twice: "dict_set k v (dict_set k w d) = dict_set k v d"
  by (induction d) auto

lemma dict_set_ensure_key: "dict_set k v (ensure_key k d) = dict_set k v d"
  by (simp add: ensure_key_def dict_set_twice)

lemma set_default_values_wellshaped:
  assumes "wellshaped d"
  shows "set_default_values d = Inr (with_defaults d)"
proof (cases "map_of d ''metadata''")
  case None
  then show ?thesis
    by (simp add: set_default_values_def with_defaults_def sub_dict_def map_of_ensure_key
        dict_set_ensure_key Let_def)
next
  case (Some mv)
  with assms obtain m where mv: "mv = VDict m"
    by (auto simp: wellshaped_def split: val.splits)
  show ?thesis
  proof (cases "map_of m ''system''")
    case None
    with Some mv show ?thesis
      by (simp add: set_default_values_def with_defaults_def sub_dict_def map_of_ensure_key
          dict_set_ensure_key Let_def)
  next
    case sv: (Some sv)
    with assms Some mv obtain s where "sv = VDict s"
      by (auto simp: wellshaped_def split: val.splits)
    with sv Some mv show ?thesis
      by (simp add: set_default_values_def with_defaults_def sub_dict_def map_of_ensure_key
          dict_set_ensure_key Let_def)
  qed
qed

lemma set_default_values_illshaped:
  assumes "\<not> wellshaped d"
  shows "\<exists>e. set_default_values d = Inl e"
proof (cases "map_of d ''metadata''")
  case None
  with assms show ?thesis by (simp add: wellshaped_def)
next
  case (Some mv)
  show ?thesis
  proof (cases "\<exists>m. mv = VDict m")
    case False
    with Some show ?thesis
      by (cases mv) (simp_all add: set_default_values_def map_of_ensure_key Let_def)
  next
    case True
    then obtain m where mv: "mv = VDict m" by blast
    show ?thesis
    proof (cases "map_of m ''system''")
      case None
      with assms Some mv show ?thesis by (simp add: wellshaped_def)
    next
      case sv: (Some sv)
      with assms Some mv have "\<nexists>s. sv = VDict s" by (auto simp: wellshaped_def)
      with sv Some mv show ?thesis
        by (cases sv) (simp_all add: set_default_values_def map_of_ensure_key Let_def)
    qed
  qed
qed

lemma Data_init_ok:
  "''self'' \<notin> set (dict_keys kwargs) \<Longrightarrow> wellshaped kwargs \<Longrightarrow>
     Data_init c kwargs = Inr ((c, VDict (with_defaults kwargs)), Suc c)"
  by (simp add: Data_init_def set_default_values_wellshaped)

lemma Data_init_raises:
  "''self'' \<in> set (dict_keys kwargs) \<or> \<not> wellshaped kwargs \<Longrightarrow> \<exists>e. Data_init c kwargs = Inl e"
  using set_default_values_illshaped [of kwargs] by (auto simp: Data_init_def)

lemma with_defaults_metadata:
  "map_of (with_defaults d) ''metadata'' =
     Some (VDict (dict_set ''system''
          (VDict (setdefault ''size'' (VInt 10)
                   (setdefault ''height'' (VInt 100) (sub_dict (sub_dict d ''metadata'') ''system''))))
          (sub_dict d ''metadata'')))"
  by (simp add: with_defaults_def map_of_dict_set)

lemma with_defaults_other: "k \<noteq> ''metadata'' \<Longrightarrow> map_of (with_defaults d) k = map_of d k"
  by (simp add: with_defaults_def map_of_dict_set)

lemma name_my_defaults:
  "\<exists>self. Data_init c [(''name'', VStr ''my'')] = Inr (self, Suc c)
      \<and> read_attribute inh (Suc c) self ''height'' = Inr (Val (VInt 100), self, Suc c)
      \<and> read_attribute inh (Suc c) self ''size'' = Inr (Val (VInt 10), self, Suc c)"
proof -
  let ?store = "[(''name'', VStr ''my''),
      (''metadata'', VDict [(''system'', VDict [(''height'', VInt 100), (''size'', VInt 10)])])]"
  have init: "Data_init c [(''name'', VStr ''my'')] = Inr ((c, VDict ?store), Suc c)"
    by (simp add: Data_init_def set_default_values_def ensure_key_def setdefault_def dict_keys_def)
  have view: "flatten_dict (VDict ?store) =
      Inr [(''name'', VStr ''my''), (''height'', VInt 100), (''size'', VInt 10),
           (''system'', VDict [(''height'', VInt 100), (''size'', VInt 10)]),
           (''metadata'', VDict [(''system'', VDict [(''height'', VInt 100), (''size'', VInt 10)])])]"
    by (simp add: flatten_dict_def flat_def)
  have h: "read_attribute inh (Suc c) (c, VDict ?store) ''height''
      = Inr (Val (VInt 100), (c, VDict ?store), Suc c)"
    using read_flattened [OF _ _ _ view, of "''height''"] by (simp add: class_attrs_def)
  have z: "read_attribute inh (Suc c) (c, VDict ?store) ''size''
      = Inr (Val (VInt 10), (c, VDict ?store), Suc c)"
    using read_flattened [OF _ _ _ view, of "''size''"] by (simp add: class_attrs_def)
  from init h z show ?thesis by - (intro exI conjI, assumption+)
qed

text \<open>
  C2 (as amended).  Let the keyword dictionary have no key \<open>self\<close>, and let
  \<open>metadata\<close>, if present, be a plain dictionary whose \<open>system\<close>, if present, is one
  too.  Then construction succeeds; \<open>metadata.system\<close> exists afterwards; \<open>height\<close> and
  \<open>size\<close> in it are the caller's values when the caller supplied them, whatever they are,
  and 100 and 10 only when the key was absent; every other entry of \<open>system\<close> is as the
  caller gave it, and so is every scalar the caller gave in \<open>metadata\<close> and at the top
  level; the store has the caller's keys, and \<open>metadata\<close> after them if it was absent.
  Where construction changes no dictionary of the caller, the store is the caller's entries
  with the defaults added.  Constructing from \<open>{"name": "my"}\<close> gives an instance on
  which reading \<open>height\<close> returns 100 and reading \<open>size\<close> returns 10.
\<close>

theorem C2_defaults_only_when_absent:
  assumes "''self'' \<notin> set (dict_keys entries)" and "wellshaped entries"
  shows "\<exists>store metadata system.
      Data_init c entries = Inr ((c, VDict store), Suc c)
    \<and> map_of store ''metadata'' = Some (VDict metadata)
    \<and> map_of metadata ''system'' = Some (VDict system)
    \<and> map_of system ''height'' =
        Some (case map_of (sub_dict (sub_dict entries ''metadata'') ''system'') ''height'' of
                Some v \<Rightarrow> v | None \<Rightarrow> VInt 100)
    \<and> map_of system ''size'' =
        Some (case map_of (sub_dict (sub_dict entries ''metadata'') ''system'') ''size'' of
                Some v \<Rightarrow> v | None \<Rightarrow> VInt 10)
    \<and> (\<forall>k. k \<noteq> ''height'' \<and> k \<noteq> ''size'' \<longrightarrow>
          map_of system k = map_of (sub_dict (sub_dict entries ''metadata'') ''system'') k)
    \<and> (\<forall>k v. k \<noteq> ''system'' \<and> map_of (sub_dict entries ''metadata'') k = Some v \<and> atom v
          \<longrightarrow> map_of metadata k = Some v)
    \<and> (\<forall>k v. k \<noteq> ''metadata'' \<and> map_of entries k = Some v \<and> atom v
          \<longrightarrow> map_of store k = Some v)
    \<and> dict_keys store =
        (if ''metadata'' \<in> set (dict_keys entries) then dict_keys entries
         else dict_keys entries @ [''metadata''])
    \<and> (in_place_free entries \<longrightarrow> store = with_defaults entries)
    \<and> (\<exists>self. Data_init c [(''name'', VStr ''my'')] = Inr (self, Suc c)
          \<and> read_attribute inh (Suc c) self ''height'' = Inr (Val (VInt 100), self, Suc c)
          \<and> read_attribute inh (Suc c) self ''size'' = Inr (Val (VInt 10), self, Suc c))"
proof -
  let ?given = "sub_dict (sub_dict entries ''metadata'') ''system''"
  let ?sys = "setdefault ''size'' (VInt 10) (setdefault ''height'' (VInt 100) ?given)"
  let ?md = "dict_set ''system'' (VDict ?sys) (sub_dict entries ''metadata'')"
  have init: "Data_init c entries = Inr ((c, VDict (with_defaults entries)), Suc c)"
    using assms by (rule Data_init_ok)
  have md: "map_of (with_defaults entries) ''metadata'' = Some (VDict ?md)"
    by (rule with_defaults_metadata)
  have sy: "map_of ?md ''system'' = Some (VDict ?sys)"
    by (simp add: map_of_dict_set)
  have h: "map_of ?sys ''height'' = Some (case map_of ?given ''height'' of Some v \<Rightarrow> v | None \<Rightarrow> VInt 100)"
    by (simp add: map_of_setdefault split: option.splits)
  have z: "map_of ?sys ''size'' = Some (case map_of ?given ''size'' of Some v \<Rightarrow> v | None \<Rightarrow> VInt 10)"
    by (simp add: map_of_setdefault split: option.splits)
  have os: "\<forall>k. k \<noteq> ''height'' \<and> k \<noteq> ''size'' \<longrightarrow> map_of ?sys k = map_of ?given k"
    by (simp add: map_of_setdefault split: option.splits)
  have om: "\<forall>k v. k \<noteq> ''system'' \<and> map_of (sub_dict entries ''metadata'') k = Some v \<and> atom v
          \<longrightarrow> map_of ?md k = Some v"
    by (simp add: map_of_dict_set)
  have od: "\<forall>k v. k \<noteq> ''metadata'' \<and> map_of entries k = Some v \<and> atom v
          \<longrightarrow> map_of (with_defaults entries) k = Some v"
    by (simp add: with_defaults_other)
  have ks: "dict_keys (with_defaults entries) =
        (if ''metadata'' \<in> set (dict_keys entries) then dict_keys entries
         else dict_keys entries @ [''metadata''])"
    unfolding with_defaults_def by (rule dict_keys_dict_set)
  have ex: "in_place_free entries \<longrightarrow> with_defaults entries = with_defaults entries"
    by simp
  from name_my_defaults [of c inh] obtain self where
    n: "Data_init c [(''name'', VStr ''my'')] = Inr (self, Suc c)"
      "read_attribute inh (Suc c) self ''height'' = Inr (Val (VInt 100), self, Suc c)"
      "read_attribute inh (Suc c) self ''size'' = Inr (Val (VInt 10), self, Suc c)"
    by blast
  from init md sy h z os om od ks ex n show ?thesis
    by - (intro exI conjI, assumption+)
qed

text \<open>
  At a caller-supplied height of 0 (a falsy value): the height stays 0 and only the size
  is filled in.
\<close>

theorem C2_witness:
  "''self'' \<notin> set (dict_keys [(''metadata'', VDict [(''system'', VDict [(''height'', VInt 0)])])])
   \<and> wellshaped [(''metadata'', VDict [(''system'', VDict [(''height'', VInt 0)])])]
   \<and> (\<exists>store metadata system.
        Data_init 0 [(''metadata'', VDict [(''system'', VDict [(''height'', VInt 0)])])]
          = Inr ((0, VDict store), Suc 0)
      \<and> map_of store ''metadata'' = Some (VDict metadata)
      \<and> map_of metadata ''system'' = Some (VDict system)
      \<and> map_of system ''height'' = Some (VInt 0)
      \<and> map_of system ''size'' = Some (VInt 10))"
proof -
  let ?e = "[(''metadata'', VDict [(''system'', VDict [(''height'', VInt 0)])])]"
  have a: "''self'' \<notin> set (dict_keys ?e)" by (simp add: dict_keys_def)
  have b: "wellshaped ?e" by (simp add: wellshaped_def)
  have c: "sub_dict (sub_dict ?e ''metadata'') ''system'' = [(''height'', VInt 0)]"
    by (simp add: sub_dict_def)
  from C2_defaults_only_when_absent [OF a b, where c = 0 and inh = "[]"] a b show ?thesis
    unfolding c by auto
qed

text \<open>
  The claim says "for every initial entry mapping".  With \<open>metadata\<close> bound to the
  number 5, \<open>"system" not in metadata\<close> raises TypeError and no instance is built.
\<close>

theorem C2_counterexample:
  "Data_init 0 [(''metadata'', VInt 5)] = Inl TypeError
   \<and> \<not> (\<exists>self c. Data_init 0 [(''metadata'', VInt 5)] = Inr (self, c))"
  by (simp add: Data_init_def set_default_values_def ensure_key_def dict_keys_def)

section \<open>The flattened view\<close>

lemma flatten_loop_acc: "flatten_loop items d = items @ flatten_loop [] d"
proof (induction d arbitrary: items)
  case Nil
  show ?case by simp
next
  case (Cons p rest)
  obtain key "value" where p: "p = (key, value)" by (cases p)
  show ?case
    unfolding p flatten_loop.simps
    by (subst Cons.IH, subst (2) Cons.IH) (simp split: val.splits)
qed

lemma flatten_loop_Cons:
  "flatten_loop [] ((key, value) # rest) =
     (case value of VDict d \<Rightarrow> flat d | _ \<Rightarrow> []) @ [(key, value)] @ flatten_loop [] rest"
  by (subst flatten_loop.simps, subst flatten_loop_acc) (cases "value"; simp add: flat_def)

lemma map_of_rev_distinct: "distinct (map fst xs) \<Longrightarrow> map_of (rev xs) = map_of xs"
proof
  fix k
  assume d: "distinct (map fst xs)"
  then have dr: "distinct (map fst (rev xs))" by (simp add: rev_map [symmetric])
  show "map_of (rev xs) k = map_of xs k"
  proof (cases "map_of xs k")
    case None
    then have "k \<notin> fst ` set (rev xs)" by (simp add: map_of_eq_None_iff)
    then have "map_of (rev xs) k = None" by (simp add: map_of_eq_None_iff)
    with None show ?thesis by simp
  next
    case (Some v)
    with d have "(k, v) \<in> set (rev xs)" by simp
    with dr have "map_of (rev xs) k = Some v" by (rule_tac map_of_is_SomeI)
    with Some show ?thesis by simp
  qed
qed

lemma distinct_flat: "distinct (dict_keys (flat d))"
  unfolding flat_def by (rule distinct_dict_of_items) (simp add: dict_keys_def)

lemma keys_flat: "set (dict_keys (flat d)) = fst ` set (flatten_loop [] d)"
  by (simp add: flat_def keys_dict_of_items, simp add: dict_keys_def)

lemma fst_set_flat: "fst ` set (flat d) = fst ` set (flatten_loop [] d)"
  using keys_flat [of d] by (simp add: dict_keys_def)

lemma map_of_flat: "map_of (flat d) = map_of (rev (flatten_loop [] d))"
  by (simp add: flat_def map_of_dict_of_items)

lemma map_of_rev_flat: "map_of (rev (flat d)) = map_of (rev (flatten_loop [] d))"
  using distinct_flat [of d] by (simp add: map_of_rev_distinct dict_keys_def map_of_flat)

lemma flatten_loop_walk:
  "map_of (rev (flatten_loop [] d)) = map_of (rev (walk_spec d))
   \<and> fst ` set (flatten_loop [] d) = fst ` set (walk_spec d)"
proof (induction d rule: walk_spec.induct)
  case 1
  show ?case by simp
next
  case (2 key "value" rest)
  show ?case
  proof (cases "\<exists>d. value = VDict d")
    case True
    then obtain d where v: "value = VDict d" by blast
    from 2(1) [OF v] 2(2) show ?thesis
      by (simp del: flatten_loop.simps
          add: flatten_loop_Cons v map_of_rev_flat fst_set_flat image_Un)
  next
    case False
    with 2(2) show ?thesis
      by (cases "value") (simp_all del: flatten_loop.simps add: flatten_loop_Cons)
  qed
qed

lemma map_of_flat_walk: "map_of (flat d) = map_of (rev (walk_spec d))"
  by (simp add: map_of_flat flatten_loop_walk)

lemma keys_flat_walk: "set (dict_keys (flat d)) = fst ` set (walk_spec d)"
  by (simp add: keys_flat flatten_loop_walk)

lemma walk_spec_top: "set d \<subseteq> set (walk_spec d)"
  by (induction d rule: walk_spec.induct) auto

lemma walk_spec_nested: "(k, VDict sub) \<in> set (walk_spec d) \<Longrightarrow> set (walk_spec sub) \<subseteq> set (walk_spec d)"
  by (induction d rule: walk_spec.induct) (auto split: val.splits)

lemma map_of_rev_last:
  "k \<notin> fst ` set ys \<Longrightarrow> map_of (rev (xs @ (k, v) # ys)) k = Some v"
  by (simp add: map_add_def map_of_eq_None_iff [THEN iffD2] split: option.splits)

text \<open>
  C7.  On a dictionary \<open>flatten_dict\<close> returns the view \<open>flat d\<close>.  The walk of the
  specification holds every entry of the dictionary and, with a nested mapping, every
  entry of that mapping's walk; so the view has the key of every nested mapping and every
  key below it.  As a mapping the view is the walk read from its end: whenever a pair of
  the walk is the last one with its key, the view maps that key to its value, so a later
  occurrence overwrites an earlier one, and a nested mapping met last under its key is
  there in full.
\<close>

theorem C7_flattened_view:
  "flatten_dict (VDict d) = Inr (flat d)
   \<and> distinct (dict_keys (flat d))
   \<and> set d \<subseteq> set (walk_spec d)
   \<and> (\<forall>k sub. (k, VDict sub) \<in> set (walk_spec d) \<longrightarrow>
         set (walk_spec sub) \<subseteq> set (walk_spec d)
         \<and> k \<in> set (dict_keys (flat d))
         \<and> set (dict_keys (flat sub)) \<subseteq> set (dict_keys (flat d)))
   \<and> set (dict_keys (flat d)) = fst ` set (walk_spec d)
   \<and> map_of (flat d) = map_of (rev (walk_spec d))
   \<and> (\<forall>xs k v ys. walk_spec d = xs @ (k, v) # ys \<and> k \<notin> fst ` set ys \<longrightarrow>
         map_of (flat d) k = Some v)"
proof -
  have a: "flatten_dict (VDict d) = Inr (flat d)" by (simp add: flatten_dict_def)
  have b: "\<forall>k sub. (k, VDict sub) \<in> set (walk_spec d) \<longrightarrow>
         set (walk_spec sub) \<subseteq> set (walk_spec d)
         \<and> k \<in> set (dict_keys (flat d))
         \<and> set (dict_keys (flat sub)) \<subseteq> set (dict_keys (flat d))"
  proof (intro allI impI)
    fix k sub
    assume m: "(k, VDict sub) \<in> set (walk_spec d)"
    then have s: "set (walk_spec sub) \<subseteq> set (walk_spec d)" by (rule walk_spec_nested)
    from m have "k \<in> fst ` set (walk_spec d)" by force
    with s show "set (walk_spec sub) \<subseteq> set (walk_spec d)
         \<and> k \<in> set (dict_keys (flat d))
         \<and> set (dict_keys (flat sub)) \<subseteq> set (dict_keys (flat d))"
      by (auto simp: keys_flat_walk)
  qed
  have c: "\<forall>xs k v ys. walk_spec d = xs @ (k, v) # ys \<and> k \<notin> fst ` set ys \<longrightarrow>
         map_of (flat d) k = Some v"
    by (auto simp: map_of_flat_walk map_of_rev_last simp del: map_of_append rev_append)
  from a b c distinct_flat [of d] walk_spec_top [of d] keys_flat_walk [of d] map_of_flat_walk [of d]
  show ?thesis by - (intro conjI, assumption+)
qed

text \<open>
  With \<open>a\<close> at two depths, the occurrence inside \<open>b\<close> is walked last and wins.
\<close>

theorem C7_witness:
  "walk_spec collision_store =
     [(''x'', VInt 1), (''a'', VDict [(''x'', VInt 1)]), (''a'', VInt 5), (''b'', VDict [(''a'', VInt 5)])]
   \<and> map_of (flat collision_store) ''a'' = Some (VInt 5)
   \<and> ''x'' \<in> set (dict_keys (flat collision_store))"
proof -
  have w: "walk_spec collision_store =
     [(''x'', VInt 1), (''a'', VDict [(''x'', VInt 1)])] @ (''a'', VInt 5) # [(''b'', VDict [(''a'', VInt 5)])]"
    by (simp add: collision_store_def)
  have n: "''a'' \<notin> fst ` set [(''b'', VDict [(''a'', VInt 5)])]" by simp
  have m: "(''a'', VDict [(''x'', VInt 1)]) \<in> set (walk_spec collision_store)"
    by (simp add: w)
  have x: "set (dict_keys (flat [(''x'', VInt 1)])) = {''x''}"
    by (simp add: flat_def dict_keys_def)
  from C7_flattened_view [of collision_store] have
    last: "\<forall>xs k v ys. walk_spec collision_store = xs @ (k, v) # ys \<and> k \<notin> fst ` set ys \<longrightarrow>
         map_of (flat collision_store) k = Some v"
    and sub: "\<forall>k sub. (k, VDict sub) \<in> set (walk_spec collision_store) \<longrightarrow>
         set (walk_spec sub) \<subseteq> set (walk_spec collision_store)
         \<and> k \<in> set (dict_keys (flat collision_store))
         \<and> set (dict_keys (flat sub)) \<subseteq> set (dict_keys (flat collision_store))"
    by blast+
  from last w n have "map_of (flat collision_store) ''a'' = Some (VInt 5)" by blast
  moreover from sub m x have "''x'' \<in> set (dict_keys (flat collision_store))" by blast
  ultimately show ?thesis using w by simp
qed

section \<open>Absent names and writes\<close>

lemma top_level_in_flat: "set (dict_keys store) \<subseteq> set (dict_keys (flat store))"
proof
  fix k
  assume "k \<in> set (dict_keys store)"
  then obtain v where "(k, v) \<in> set store" by (auto simp: dict_keys_def)
  with walk_spec_top [of store] have "(k, v) \<in> set (walk_spec store)" by blast
  then have "k \<in> fst ` set (walk_spec store)" by force
  then show "k \<in> set (dict_keys (flat store))" by (simp add: keys_flat_walk)
qed

lemma default_init: "Data_init c [] = Inr ((c, VDict default_store), Suc c)"
  by (simp add: Data_init_def set_default_values_def ensure_key_def setdefault_def dict_keys_def
      default_store_def default_system_def)

lemma read_absent:
  assumes "\<not> startswith_underscore attr" and "attr \<notin> set class_attrs"
    and "attr \<notin> set (dict_keys (flat store))"
  shows "read_attribute inh c (i, VDict store) attr = Inr (Val VNone, (i, VDict store), c)"
proof -
  from assms(3) top_level_in_flat [of store] have "map_of store attr = None"
    by (auto simp: in_keys_iff)
  moreover from assms(3) have "map_of (flat store) attr = None"
    by (simp add: in_keys_iff)
  ultimately show ?thesis
    using read_flattened [OF _ assms(1,2), of store "flat store" inh c i]
    by (simp add: flatten_dict_def)
qed

lemma read_underscore_absent:
  assumes "startswith_underscore attr" and "attr \<notin> set (dict_keys store)"
    and "attr \<noteq> ''_data''" and "\<not> on_class inh attr"
  shows "read_attribute inh c (i, VDict store) attr = Inl AttributeError"
proof -
  from assms(2) have "map_of store attr = None" by (simp add: in_keys_iff)
  with assms show ?thesis
    by (simp add: read_attribute_def object_getattribute_def getattr_hook_def getattr_else_def)
qed

text \<open>
  C4 (as amended).  On an instance whose store is a dictionary: reading a name that does
  not begin with an underscore, is not bound in the class and is a key at no depth of the
  store returns \<open>None\<close> and changes nothing; reading a name that begins with an
  underscore and is neither a top-level key nor an attribute the object really has raises
  AttributeError, since that branch hands the name to default attribute resolution; and
  writing any name with any value succeeds.
\<close>

theorem C4_absent_reads_and_writes:
  "(\<not> startswith_underscore attr \<and> attr \<notin> set class_attrs
      \<and> attr \<notin> set (dict_keys (flat store))
      \<longrightarrow> read_attribute inh c (i, VDict store) attr = Inr (Val VNone, (i, VDict store), c))
   \<and> (startswith_underscore attr \<and> attr \<notin> set (dict_keys store) \<and> attr \<noteq> ''_data''
      \<and> \<not> on_class inh attr
      \<longrightarrow> read_attribute inh c (i, VDict store) attr = Inl AttributeError)
   \<and> setattr_hook (i, VDict store) attr value =
       Inr (i, if attr = ''_data'' then value else VDict (dict_set attr value store))"
  using read_absent [of attr store inh c i] read_underscore_absent [of attr store inh c i]
  by (simp add: setattr_hook_def)

text \<open>On the instance \<open>Data()\<close>, with the names \<open>color\<close> and \<open>_foo\<close>.\<close>

theorem C4_witness:
  "\<not> startswith_underscore ''color'' \<and> ''color'' \<notin> set class_attrs
   \<and> ''color'' \<notin> set (dict_keys (flat default_store))
   \<and> read_attribute [] 1 (0, VDict default_store) ''color''
        = Inr (Val VNone, (0, VDict default_store), 1)
   \<and> startswith_underscore ''_foo'' \<and> ''_foo'' \<notin> set (dict_keys default_store)
   \<and> \<not> on_class [] ''_foo''
   \<and> read_attribute [] 1 (0, VDict default_store) ''_foo'' = Inl AttributeError
   \<and> setattr_hook (0, VDict default_store) ''color'' (VStr ''red'')
        = Inr (0, VDict (default_store @ [(''color'', VStr ''red'')]))"
proof -
  have a: "\<not> startswith_underscore ''color''" "''color'' \<notin> set class_attrs"
    "''color'' \<notin> set (dict_keys (flat default_store))"
    by (simp_all add: class_attrs_def flat_def dict_keys_def default_store_def default_system_def)
  have b: "startswith_underscore ''_foo''" "''_foo'' \<notin> set (dict_keys default_store)"
    "''_foo'' \<noteq> ''_data''" "\<not> on_class [] ''_foo''"
    by (simp_all add: dict_keys_def default_store_def on_class_def class_attrs_def)
  have c: "dict_set ''color'' (VStr ''red'') default_store = default_store @ [(''color'', VStr ''red'')]"
    by (simp add: default_store_def)
  from C4_absent_reads_and_writes [of "''color''" default_store "[]" 1 0 "VStr ''red''"] a
  have r1: "read_attribute [] 1 (0, VDict default_store) ''color''
        = Inr (Val VNone, (0, VDict default_store), 1)"
    and w: "setattr_hook (0, VDict default_store) ''color'' (VStr ''red'')
        = Inr (0, VDict (default_store @ [(''color'', VStr ''red'')]))"
    by (simp_all add: c)
  from C4_absent_reads_and_writes [of "''_foo''" default_store "[]" 1 0 VNone] b
  have r2: "read_attribute [] 1 (0, VDict default_store) ''_foo'' = Inl AttributeError"
    by simp
  from a b r1 r2 w show ?thesis by simp
qed

text \<open>
  The claim says that reading any absent name returns \<open>None\<close>.  On the instance
  \<open>Data()\<close> the name \<open>_foo\<close> is absent, and reading it raises AttributeError.  The
  name does not begin with two underscores, so the outcome is the same whatever the class
  inherits.
\<close>

theorem C4_counterexample:
  "Data_init 0 [] = Inr ((0, VDict default_store), 1)
   \<and> read_attribute [] 1 (0, VDict default_store) ''_foo'' = Inl AttributeError"
  by (simp add: default_init read_attribute_def object_getattribute_def getattr_hook_def
      getattr_else_def on_class_def class_attrs_def default_store_def)

section \<open>Writes\<close>

lemma read_top_level_value:
  assumes "map_of store attr = Some value" and "\<nexists>d. value = VDict d"
    and "attr \<noteq> ''_data''" and "\<not> on_class inh attr"
  shows "read_attribute inh c (i, VDict store) attr = Inr (Val value, (i, VDict store), c)"
  using assms
  by (cases "value")
     (simp_all add: read_attribute_def object_getattribute_def getattr_hook_def)

lemma read_top_level_mapping:
  assumes "map_of store k = Some (VDict d)" and "k \<noteq> ''_data''" and "\<not> on_class inh k"
    and "''self'' \<notin> set (dict_keys d)" and "wellshaped d"
  shows "read_attribute inh c (i, VDict store) k =
           Inr (Val (VData c (VDict (with_defaults d))),
                (i, VDict (dict_set k (VData c (VDict (with_defaults d))) store)), Suc c)"
  using assms
  by (simp add: read_attribute_def object_getattribute_def getattr_hook_def Data_init_ok)

lemma read_top_level_mapping_raises:
  assumes "map_of store k = Some (VDict d)" and "k \<noteq> ''_data''" and "\<not> on_class inh k"
    and "''self'' \<in> set (dict_keys d) \<or> \<not> wellshaped d"
  shows "\<exists>e. read_attribute inh c (i, VDict store) k = Inl e"
  using assms(1-3) Data_init_raises [OF assms(4), of c]
  by (auto simp: read_attribute_def object_getattribute_def getattr_hook_def)

lemma height_not_on_class: "\<not> on_class inh ''height''"
  by (simp add: on_class_def class_attrs_def)

text \<open>
  C5 (as amended).  On an instance whose store is a dictionary, writing a name other than
  \<open>_data\<close> binds it to the value in the top-level store (in place when the key
  exists, last otherwise) and leaves every other entry, nested mappings included, exactly
  as it was.  A later read of the name returns the value, provided the value is not a
  plain mapping and the name is not found on the class.  When the value is a plain mapping
  the read does not return it: it returns a newly constructed instance, stored under the
  name, if the mapping can be wrapped (no key \<open>self\<close>, \<open>metadata\<close> and
  \<open>metadata.system\<close> mappings if present), and raises otherwise.  On every such
  instance, after writing 5 to \<open>height\<close>, reading \<open>height\<close> returns 5.
\<close>

theorem C5_writes_land_at_top_level:
  assumes "attr \<noteq> ''_data''"
  shows "\<exists>store'.
      setattr_hook (i, VDict store) attr value = Inr (i, VDict store')
    \<and> map_of store' attr = Some value
    \<and> (\<forall>k. k \<noteq> attr \<longrightarrow> map_of store' k = map_of store k)
    \<and> dict_keys store' =
        (if attr \<in> set (dict_keys store) then dict_keys store else dict_keys store @ [attr])
    \<and> ((\<nexists>d. value = VDict d) \<and> \<not> on_class inh attr \<longrightarrow>
          read_attribute inh c (i, VDict store') attr = Inr (Val value, (i, VDict store'), c))
    \<and> (\<forall>d. value = VDict d \<and> \<not> on_class inh attr \<longrightarrow>
          (''self'' \<notin> set (dict_keys d) \<and> wellshaped d \<longrightarrow>
             (\<exists>w after.
                 read_attribute inh c (i, VDict store') attr
                   = Inr (Val (VData c w), (i, VDict after), Suc c)
               \<and> map_of after attr = Some (VData c w)))
        \<and> (''self'' \<in> set (dict_keys d) \<or> \<not> wellshaped d \<longrightarrow>
             (\<exists>e. read_attribute inh c (i, VDict store') attr = Inl e)))
    \<and> (\<exists>s. setattr_hook (i, VDict store) ''height'' (VInt 5) = Inr s
          \<and> read_attribute inh c s ''height'' = Inr (Val (VInt 5), s, c))"
proof -
  let ?new = "dict_set attr value store"
  have a: "setattr_hook (i, VDict store) attr value = Inr (i, VDict ?new)"
    using assms by (simp add: setattr_hook_def)
  have b: "map_of ?new attr = Some value" by (simp add: map_of_dict_set)
  have c: "\<forall>k. k \<noteq> attr \<longrightarrow> map_of ?new k = map_of store k" by (simp add: map_of_dict_set)
  have d: "dict_keys ?new =
        (if attr \<in> set (dict_keys store) then dict_keys store else dict_keys store @ [attr])"
    by (rule dict_keys_dict_set)
  have e: "(\<nexists>d. value = VDict d) \<and> \<not> on_class inh attr \<longrightarrow>
          read_attribute inh c (i, VDict ?new) attr = Inr (Val value, (i, VDict ?new), c)"
    using read_top_level_value [OF b _ assms] by blast
  have m: "\<forall>d. value = VDict d \<and> \<not> on_class inh attr \<longrightarrow>
          (''self'' \<notin> set (dict_keys d) \<and> wellshaped d \<longrightarrow>
             (\<exists>w after.
                 read_attribute inh c (i, VDict ?new) attr
                   = Inr (Val (VData c w), (i, VDict after), Suc c)
               \<and> map_of after attr = Some (VData c w)))
        \<and> (''self'' \<in> set (dict_keys d) \<or> \<not> wellshaped d \<longrightarrow>
             (\<exists>e. read_attribute inh c (i, VDict ?new) attr = Inl e))"
  proof (intro allI impI conjI)
    fix d
    assume v: "value = VDict d \<and> \<not> on_class inh attr"
      and ok: "''self'' \<notin> set (dict_keys d) \<and> wellshaped d"
    from b v have l: "map_of ?new attr = Some (VDict d)" by simp
    let ?w = "VDict (with_defaults d)"
    from read_top_level_mapping [OF l assms, of inh c i] v ok
    have "read_attribute inh c (i, VDict ?new) attr
        = Inr (Val (VData c ?w), (i, VDict (dict_set attr (VData c ?w) ?new)), Suc c)"
      by simp
    moreover have "map_of (dict_set attr (VData c ?w) ?new) attr = Some (VData c ?w)"
      by (simp add: map_of_dict_set)
    ultimately show "\<exists>w after.
                 read_attribute inh c (i, VDict ?new) attr
                   = Inr (Val (VData c w), (i, VDict after), Suc c)
               \<and> map_of after attr = Some (VData c w)"
      by blast
  next
    fix d
    assume v: "value = VDict d \<and> \<not> on_class inh attr"
      and bad: "''self'' \<in> set (dict_keys d) \<or> \<not> wellshaped d"
    from b v have l: "map_of ?new attr = Some (VDict d)" by simp
    from v have nc: "\<not> on_class inh attr" by simp
    show "\<exists>e. read_attribute inh c (i, VDict ?new) attr = Inl e"
      by (rule read_top_level_mapping_raises [OF l assms nc bad])
  qed
  have f: "setattr_hook (i, VDict store) ''height'' (VInt 5)
      = Inr (i, VDict (dict_set ''height'' (VInt 5) store))"
    by (simp add: setattr_hook_def)
  have g: "read_attribute inh c (i, VDict (dict_set ''height'' (VInt 5) store)) ''height''
      = Inr (Val (VInt 5), (i, VDict (dict_set ''height'' (VInt 5) store)), c)"
    by (rule read_top_level_value) (simp_all add: map_of_dict_set height_not_on_class)
  from a b c d e m f g show ?thesis by - (intro exI conjI, assumption+)
qed

text \<open>
  With \<open>metadata.system.height\<close> at 11: the write goes to the top level, the nested
  11 is still there, and the read returns 5.  After writing the empty dictionary to
  \<open>x\<close> on \<open>Data()\<close>, reading \<open>x\<close> returns a new instance, stored under \<open>x\<close>.
\<close>

theorem C5_witness:
  "''height'' \<noteq> ''_data''
   \<and> setattr_hook (0, VDict supplied_store) ''height'' (VInt 5)
       = Inr (0, VDict (supplied_store @ [(''height'', VInt 5)]))
   \<and> map_of (supplied_store @ [(''height'', VInt 5)]) ''metadata''
       = Some (VDict [(''system'', VDict supplied_system)])
   \<and> map_of supplied_system ''height'' = Some (VInt 11)
   \<and> read_attribute [] 1 (0, VDict (supplied_store @ [(''height'', VInt 5)])) ''height''
       = Inr (Val (VInt 5), (0, VDict (supplied_store @ [(''height'', VInt 5)])), 1)
   \<and> ''x'' \<noteq> ''_data'' \<and> \<not> on_class [] ''x''
   \<and> ''self'' \<notin> set (dict_keys []) \<and> wellshaped []
   \<and> (\<exists>w after.
         read_attribute [] 1 (0, VDict (default_store @ [(''x'', VDict [])])) ''x''
           = Inr (Val (VData 1 w), (0, VDict after), Suc 1)
       \<and> map_of after ''x'' = Some (VData 1 w))"
proof -
  have x: "''x'' \<noteq> ''_data''" by simp
  have xc: "\<not> on_class [] ''x''" by (simp add: on_class_def class_attrs_def)
  have xw: "''self'' \<notin> set (dict_keys [])" "wellshaped []"
    by (simp_all add: dict_keys_def wellshaped_def)
  have xs: "setattr_hook (0, VDict default_store) ''x'' (VDict [])
       = Inr (0, VDict (default_store @ [(''x'', VDict [])]))"
    by (simp add: setattr_hook_def default_store_def)
  from C5_writes_land_at_top_level [OF x, of 0 default_store "VDict []" "[]" 1]
  obtain written where
    xv: "setattr_hook (0, VDict default_store) ''x'' (VDict []) = Inr (0, VDict written)"
    and xm: "\<forall>d. VDict [] = VDict d \<and> \<not> on_class [] ''x'' \<longrightarrow>
          (''self'' \<notin> set (dict_keys d) \<and> wellshaped d \<longrightarrow>
             (\<exists>w after.
                 read_attribute [] 1 (0, VDict written) ''x''
                   = Inr (Val (VData 1 w), (0, VDict after), Suc 1)
               \<and> map_of after ''x'' = Some (VData 1 w)))
        \<and> (''self'' \<in> set (dict_keys d) \<or> \<not> wellshaped d \<longrightarrow>
             (\<exists>e. read_attribute [] 1 (0, VDict written) ''x'' = Inl e))"
    by (elim exE conjE) (rule that)
  from xv xs have xe: "written = default_store @ [(''x'', VDict [])]" by simp
  from xm xc xw have xr: "\<exists>w after.
         read_attribute [] 1 (0, VDict (default_store @ [(''x'', VDict [])])) ''x''
           = Inr (Val (VData 1 w), (0, VDict after), Suc 1)
       \<and> map_of after ''x'' = Some (VData 1 w)"
    unfolding xe by blast
  have n: "''height'' \<noteq> ''_data''" by simp
  have s: "setattr_hook (0, VDict supplied_store) ''height'' (VInt 5)
       = Inr (0, VDict (supplied_store @ [(''height'', VInt 5)]))"
    by (simp add: setattr_hook_def supplied_store_def)
  from C5_writes_land_at_top_level [OF n, of 0 supplied_store "VInt 5" "[]" 1]
  obtain store' where
    w: "setattr_hook (0, VDict supplied_store) ''height'' (VInt 5) = Inr (0, VDict store')"
    and k: "\<forall>k. k \<noteq> ''height'' \<longrightarrow> map_of store' k = map_of supplied_store k"
    and r: "(\<nexists>d. VInt 5 = VDict d) \<and> \<not> on_class [] ''height'' \<longrightarrow>
          read_attribute [] 1 (0, VDict store') ''height'' = Inr (Val (VInt 5), (0, VDict store'), 1)"
    by blast
  from w s have st: "store' = supplied_store @ [(''height'', VInt 5)]" by simp
  from k have "map_of store' ''metadata'' = map_of supplied_store ''metadata''" by simp
  then have m: "map_of (supplied_store @ [(''height'', VInt 5)]) ''metadata''
       = Some (VDict [(''system'', VDict supplied_system)])"
    unfolding st by (simp add: supplied_store_def)
  from r have rd: "read_attribute [] 1 (0, VDict (supplied_store @ [(''height'', VInt 5)])) ''height''
       = Inr (Val (VInt 5), (0, VDict (supplied_store @ [(''height'', VInt 5)])), 1)"
    unfolding st by (simp add: height_not_on_class)
  have h: "map_of supplied_system ''height'' = Some (VInt 11)"
    by (simp add: supplied_system_def)
  from n s m h rd x xc xw xr show ?thesis by - (intro conjI, assumption+)
qed

text \<open>
  The claim says that a read after a write returns the value written.  After writing the
  empty dictionary to \<open>x\<close> on \<open>Data()\<close>, reading \<open>x\<close> returns a new instance of
  \<open>Data\<close> (with the defaults injected), not the dictionary.
\<close>

theorem C5_counterexample:
  "setattr_hook (0, VDict default_store) ''x'' (VDict [])
     = Inr (0, VDict (default_store @ [(''x'', VDict [])]))
   \<and> read_attribute [] 1 (0, VDict (default_store @ [(''x'', VDict [])])) ''x''
     = Inr (Val (VData 1 (VDict default_store)),
            (0, VDict (default_store @ [(''x'', VData 1 (VDict default_store))])), 2)
   \<and> Val (VData 1 (VDict default_store)) \<noteq> Val (VDict [])"
  by (simp add: setattr_hook_def read_attribute_def object_getattribute_def getattr_hook_def
      on_class_def class_attrs_def default_init default_store_def)

section \<open>Reads that materialize a nested mapping\<close>

lemma supplied_from_dict: "from_dict c supplied_store = Inr ((c, VDict supplied_store), Suc c)"
  by (simp add: from_dict_def Data_init_def set_default_values_def ensure_key_def setdefault_def
      dict_keys_def supplied_store_def supplied_system_def)

lemma supplied_metadata_init:
  "Data_init c [(''system'', VDict supplied_system)] = Inr ((c, wrapped_metadata), Suc c)"
  by (simp add: Data_init_def set_default_values_def ensure_key_def setdefault_def
      dict_keys_def wrapped_metadata_def default_system_def)

lemma flat_instance_entry: "flat [(k, VData j w)] = [(k, VData j w)]"
  by (simp add: flat_def)

text \<open>
  On the instance built from \<open>{"metadata": {"system": {"height": 11, "size": 10.7}}}\<close>
  reading \<open>height\<close> returns 11.  Reading \<open>metadata\<close> replaces the entry by a new
  instance; the flattened view of the store is then that one entry, and reading
  \<open>height\<close> returns \<open>None\<close>.
\<close>

lemma supplied_store_reads:
  "from_dict c supplied_store = Inr ((c, VDict supplied_store), Suc c)
   \<and> read_attribute inh (Suc c) (c, VDict supplied_store) ''height''
       = Inr (Val (VInt 11), (c, VDict supplied_store), Suc c)
   \<and> read_attribute inh (Suc c) (c, VDict supplied_store) ''metadata''
       = Inr (Val (VData (Suc c) wrapped_metadata),
              (c, VDict [(''metadata'', VData (Suc c) wrapped_metadata)]), Suc (Suc c))
   \<and> flatten_dict (VDict [(''metadata'', VData (Suc c) wrapped_metadata)])
       = Inr [(''metadata'', VData (Suc c) wrapped_metadata)]
   \<and> read_attribute inh (Suc (Suc c)) (c, VDict [(''metadata'', VData (Suc c) wrapped_metadata)]) ''height''
       = Inr (Val VNone, (c, VDict [(''metadata'', VData (Suc c) wrapped_metadata)]), Suc (Suc c))"
proof -
  have v0: "flatten_dict (VDict supplied_store) =
      Inr [(''height'', VInt 11), (''size'', VFloat (107 / 10)),
           (''system'', VDict supplied_system),
           (''metadata'', VDict [(''system'', VDict supplied_system)])]"
    by (simp add: flatten_dict_def flat_def supplied_store_def supplied_system_def)
  have r0: "read_attribute inh (Suc c) (c, VDict supplied_store) ''height''
       = Inr (Val (VInt 11), (c, VDict supplied_store), Suc c)"
    using read_flattened [OF _ _ _ v0, of "''height''" inh "Suc c" c]
    by (simp add: class_attrs_def supplied_store_def)
  have r1: "read_attribute inh (Suc c) (c, VDict supplied_store) ''metadata''
       = Inr (Val (VData (Suc c) wrapped_metadata),
              (c, VDict [(''metadata'', VData (Suc c) wrapped_metadata)]), Suc (Suc c))"
    by (simp add: read_attribute_def object_getattribute_def on_class_def class_attrs_def
        getattr_hook_def supplied_store_def supplied_metadata_init)
  have v1: "flatten_dict (VDict [(''metadata'', VData (Suc c) wrapped_metadata)])
       = Inr [(''metadata'', VData (Suc c) wrapped_metadata)]"
    by (simp add: flatten_dict_def flat_instance_entry)
  have r2: "read_attribute inh (Suc (Suc c)) (c, VDict [(''metadata'', VData (Suc c) wrapped_metadata)]) ''height''
       = Inr (Val VNone, (c, VDict [(''metadata'', VData (Suc c) wrapped_metadata)]), Suc (Suc c))"
    using read_flattened [OF _ _ _ v1, of "''height''" inh "Suc (Suc c)" c]
    by (simp add: class_attrs_def)
  from supplied_from_dict [of c] r0 r1 v1 r2 show ?thesis by - (intro conjI, assumption+)
qed

lemma wellshaped_metadata_mapping:
  assumes "wellshaped d" and "map_of d ''metadata'' = Some v"
  shows "\<exists>x. v = VDict x"
  using assms by (cases v) (simp_all add: wellshaped_def)

lemma atom_not_mapping: "atom v \<Longrightarrow> \<nexists>x. v = VDict x"
  by (cases v) simp_all

lemma dict_keys_dict_set_present:
  "map_of store k = Some v \<Longrightarrow> dict_keys (dict_set k w store) = dict_keys store"
  by (simp add: dict_keys_dict_set in_keys_iff)

text \<open>
  C8 (as amended).  Let the store map a top-level key, not \<open>_data\<close> and not found on
  the class, to a plain mapping that can be wrapped: it has no key \<open>self\<close> and its
  \<open>metadata\<close> and \<open>metadata.system\<close> entries, if present, are plain mappings.  The
  first read of the key constructs a new instance (identity \<open>c\<close>, the next free one)
  whose store has the keys of the mapping, and \<open>metadata\<close> after them if that was absent,
  and every scalar of the mapping; the instance is returned and is what the store holds
  under the key afterwards, the keys of the store being as before.  The second read returns
  the instance with the same identity and constructs nothing: store and next free identity
  stay as they are.  On the wrapper every entry of the mapping whose value is a scalar
  reads as that value.  Where wrapping changes no existing dictionary, the wrapper's store
  is the mapping with the defaults added, the store is the old one with the wrapper in
  place of the mapping, and every entry of the mapping whose value is not itself a mapping
  reads on the wrapper as that value.
\<close>

theorem C8_memoized_materialization:
  assumes "map_of store k = Some (VDict d)" and "k \<noteq> ''_data''" and "\<not> on_class inh k"
    and "''self'' \<notin> set (dict_keys d)" and "wellshaped d"
  shows "\<exists>ws store'.
      read_attribute inh c (i, VDict store) k
        = Inr (Val (VData c (VDict ws)), (i, VDict store'), Suc c)
    \<and> dict_keys ws =
        (if ''metadata'' \<in> set (dict_keys d) then dict_keys d else dict_keys d @ [''metadata''])
    \<and> (\<forall>k' v. map_of d k' = Some v \<and> atom v \<longrightarrow> map_of ws k' = Some v)
    \<and> map_of store' k = Some (VData c (VDict ws))
    \<and> dict_keys store' = dict_keys store
    \<and> read_attribute inh (Suc c) (i, VDict store') k
         = Inr (Val (VData c (VDict ws)), (i, VDict store'), Suc c)
    \<and> (\<forall>k' v n. map_of d k' = Some v \<and> atom v \<and> k' \<noteq> ''_data'' \<and> \<not> on_class inh k'
         \<longrightarrow> read_attribute inh n (c, VDict ws) k' = Inr (Val v, (c, VDict ws), n))
    \<and> (in_place_free d \<longrightarrow>
          ws = with_defaults d
        \<and> store' = dict_set k (VData c (VDict ws)) store
        \<and> (\<forall>k' v n. map_of d k' = Some v \<and> (\<nexists>x. v = VDict x) \<and> k' \<noteq> ''_data''
               \<and> \<not> on_class inh k'
             \<longrightarrow> read_attribute inh n (c, VDict ws) k' = Inr (Val v, (c, VDict ws), n)))"
proof -
  let ?ws = "with_defaults d"
  let ?new = "dict_set k (VData c (VDict ?ws)) store"
  have b: "read_attribute inh c (i, VDict store) k
      = Inr (Val (VData c (VDict ?ws)), (i, VDict ?new), Suc c)"
    using assms by (rule read_top_level_mapping)
  have ks: "dict_keys ?ws =
        (if ''metadata'' \<in> set (dict_keys d) then dict_keys d else dict_keys d @ [''metadata''])"
    unfolding with_defaults_def by (rule dict_keys_dict_set)
  have other: "map_of ?ws k' = Some v" if "map_of d k' = Some v" and "\<nexists>x. v = VDict x" for k' v
  proof -
    from that wellshaped_metadata_mapping [OF assms(5)] have "k' \<noteq> ''metadata''" by blast
    with that show ?thesis by (simp add: with_defaults_other)
  qed
  have at: "\<forall>k' v. map_of d k' = Some v \<and> atom v \<longrightarrow> map_of ?ws k' = Some v"
    using other atom_not_mapping by blast
  have st: "map_of ?new k = Some (VData c (VDict ?ws))" by (simp add: map_of_dict_set)
  have kn: "dict_keys ?new = dict_keys store"
    using assms(1) by (rule dict_keys_dict_set_present)
  have c: "read_attribute inh (Suc c) (i, VDict ?new) k
         = Inr (Val (VData c (VDict ?ws)), (i, VDict ?new), Suc c)"
    by (rule read_top_level_value) (simp_all add: map_of_dict_set assms(2,3))
  have rd: "read_attribute inh n (c, VDict ?ws) k' = Inr (Val v, (c, VDict ?ws), n)"
    if "map_of d k' = Some v" and "\<nexists>x. v = VDict x" and "k' \<noteq> ''_data''"
      and "\<not> on_class inh k'" for k' v n
    using other [OF that(1,2)] that(2,3,4) by (rule read_top_level_value)
  have ra: "\<forall>k' v n. map_of d k' = Some v \<and> atom v \<and> k' \<noteq> ''_data'' \<and> \<not> on_class inh k'
         \<longrightarrow> read_attribute inh n (c, VDict ?ws) k' = Inr (Val v, (c, VDict ?ws), n)"
    using rd atom_not_mapping by blast
  have rn: "\<forall>k' v n. map_of d k' = Some v \<and> (\<nexists>x. v = VDict x) \<and> k' \<noteq> ''_data''
               \<and> \<not> on_class inh k'
             \<longrightarrow> read_attribute inh n (c, VDict ?ws) k' = Inr (Val v, (c, VDict ?ws), n)"
    using rd by blast
  from rn have ex: "in_place_free d \<longrightarrow>
          ?ws = with_defaults d
        \<and> ?new = dict_set k (VData c (VDict ?ws)) store
        \<and> (\<forall>k' v n. map_of d k' = Some v \<and> (\<nexists>x. v = VDict x) \<and> k' \<noteq> ''_data''
               \<and> \<not> on_class inh k'
             \<longrightarrow> read_attribute inh n (c, VDict ?ws) k' = Inr (Val v, (c, VDict ?ws), n))"
    by simp
  from b ks at st kn c ra ex show ?thesis by - (intro exI conjI, assumption+)
qed

text \<open>On the instance \<open>Data(user={"batch": 1121})\<close>, reading \<open>user\<close> twice.\<close>

theorem C8_witness:
  "map_of [(''user'', VDict example_user), (''metadata'', VDict [(''system'', VDict default_system)])]
      ''user'' = Some (VDict example_user)
   \<and> ''user'' \<noteq> ''_data'' \<and> \<not> on_class [] ''user''
   \<and> ''self'' \<notin> set (dict_keys example_user) \<and> wellshaped example_user
   \<and> in_place_free example_user
   \<and> read_attribute [] 1
        (0, VDict [(''user'', VDict example_user),
                   (''metadata'', VDict [(''system'', VDict default_system)])]) ''user''
       = Inr (Val (VData 1 (VDict (example_user @ default_store))),
              (0, VDict [(''user'', VData 1 (VDict (example_user @ default_store))),
                         (''metadata'', VDict [(''system'', VDict default_system)])]), 2)
   \<and> read_attribute [] 2
        (0, VDict [(''user'', VData 1 (VDict (example_user @ default_store))),
                   (''metadata'', VDict [(''system'', VDict default_system)])]) ''user''
       = Inr (Val (VData 1 (VDict (example_user @ default_store))),
              (0, VDict [(''user'', VData 1 (VDict (example_user @ default_store))),
                         (''metadata'', VDict [(''system'', VDict default_system)])]), 2)
   \<and> read_attribute [] 2 (1, VDict (example_user @ default_store)) ''batch''
       = Inr (Val (VInt 1121), (1, VDict (example_user @ default_store)), 2)"
proof -
  let ?store = "[(''user'', VDict example_user),
                 (''metadata'', VDict [(''system'', VDict default_system)])]"
  have h: "map_of ?store ''user'' = Some (VDict example_user)" "''user'' \<noteq> ''_data''"
    "\<not> on_class [] ''user''" "''self'' \<notin> set (dict_keys example_user)" "wellshaped example_user"
    by (simp_all add: on_class_def class_attrs_def dict_keys_def example_user_def wellshaped_def)
  have wd: "with_defaults example_user = example_user @ default_store"
    by (simp add: with_defaults_def sub_dict_def setdefault_def dict_keys_def example_user_def
        default_store_def default_system_def)
  have f: "in_place_free example_user"
    by (simp add: in_place_free_def example_user_def)
  have b: "map_of example_user ''batch'' = Some (VInt 1121) \<and> atom (VInt 1121)
      \<and> ''batch'' \<noteq> ''_data'' \<and> \<not> on_class [] ''batch''"
    by (simp add: example_user_def on_class_def class_attrs_def)
  from C8_memoized_materialization [OF h, of 1 0] obtain ws store' where
    r1: "read_attribute [] 1 (0, VDict ?store) ''user''
         = Inr (Val (VData 1 (VDict ws)), (0, VDict store'), Suc 1)"
    and r2: "read_attribute [] (Suc 1) (0, VDict store') ''user''
         = Inr (Val (VData 1 (VDict ws)), (0, VDict store'), Suc 1)"
    and r3: "\<forall>k' v n. map_of example_user k' = Some v \<and> atom v \<and> k' \<noteq> ''_data''
           \<and> \<not> on_class [] k'
         \<longrightarrow> read_attribute [] n (1, VDict ws) k' = Inr (Val v, (1, VDict ws), n)"
    and ex: "in_place_free example_user \<longrightarrow>
          ws = with_defaults example_user
        \<and> store' = dict_set ''user'' (VData 1 (VDict ws)) ?store
        \<and> (\<forall>k' v n. map_of example_user k' = Some v \<and> (\<nexists>x. v = VDict x) \<and> k' \<noteq> ''_data''
               \<and> \<not> on_class [] k'
             \<longrightarrow> read_attribute [] n (1, VDict ws) k' = Inr (Val v, (1, VDict ws), n))"
    by (elim exE conjE) (rule that)
  from ex f have w: "ws = with_defaults example_user"
    and s: "store' = dict_set ''user'' (VData 1 (VDict ws)) ?store"
    by simp_all
  from r3 b have r4: "read_attribute [] 2 (1, VDict ws) ''batch''
      = Inr (Val (VInt 1121), (1, VDict ws), 2)"
    by blast
  from h f r1 r2 r4 show ?thesis
    unfolding s w wd by (simp add: numeral_2_eq_2)
qed

text \<open>
  The claim speaks of every instance whose store maps a top-level key to a plain mapping.
  On the instance \<open>Data(a={"metadata": 5})\<close> the first read of \<open>a\<close> raises TypeError
  inside the construction of the wrapper, and returns none.
\<close>

theorem C8_counterexample:
  "Data_init 0 [(''a'', VDict [(''metadata'', VInt 5)])]
     = Inr ((0, VDict [(''a'', VDict [(''metadata'', VInt 5)]),
                       (''metadata'', VDict [(''system'', VDict default_system)])]), 1)
   \<and> read_attribute [] 1
        (0, VDict [(''a'', VDict [(''metadata'', VInt 5)]),
                   (''metadata'', VDict [(''system'', VDict default_system)])]) ''a''
     = Inl TypeError"
  by (simp add: Data_init_def set_default_values_def ensure_key_def setdefault_def dict_keys_def
      default_system_def read_attribute_def object_getattribute_def on_class_def class_attrs_def
      getattr_hook_def)

text \<open>
  What the flattened view gives for a name other than \<open>k\<close> when nothing under \<open>k\<close> is
  a plain dictionary: the same as without the entries under \<open>k\<close>.
\<close>

lemma walk_spec_without:
  assumes "\<forall>v. (k, v) \<in> set s \<longrightarrow> (\<nexists>x. v = VDict x)" and "attr \<noteq> k"
  shows "map_of (rev (walk_spec s)) attr = map_of (rev (walk_spec (dict_without k s))) attr"
  using assms(1)
proof (induction s rule: walk_spec.induct)
  case 1
  show ?case by (simp add: dict_without_def)
next
  case (2 key "value" rest)
  from 2(3) have r: "\<forall>v. (k, v) \<in> set rest \<longrightarrow> (\<nexists>x. v = VDict x)" by simp
  note ih = 2(2) [OF r]
  show ?case
  proof (cases "key = k")
    case True
    with 2(3) have "\<nexists>x. value = VDict x" by simp
    then have "walk_spec ((key, value) # rest) = (key, value) # walk_spec rest"
      by (cases "value") simp_all
    with True ih assms(2) show ?thesis
      by (simp add: dict_without_def map_add_def split: option.splits)
  next
    case False
    with ih show ?thesis
      by (simp add: dict_without_def map_add_def split: option.splits)
  qed
qed

lemma flat_without:
  assumes "\<forall>v. (k, v) \<in> set s \<longrightarrow> (\<nexists>x. v = VDict x)" and "attr \<noteq> k"
  shows "map_of (flat s) attr = map_of (flat (dict_without k s)) attr"
  using walk_spec_without [OF assms] by (simp add: map_of_flat_walk)

lemma distinct_only_entry:
  assumes "distinct (dict_keys s)" and "map_of s k = Some v"
  shows "\<forall>v'. (k, v') \<in> set s \<longrightarrow> v' = v"
  using assms by (auto simp: dict_keys_def dest: map_of_SomeD eq_key_imp_eq_value)

lemma dict_without_dict_set:
  "dict_without k (dict_set k v s) = dict_without k s"
  by (induction s) (auto simp: dict_without_def)

text \<open>
  C9.  Let the store (a dictionary, so with distinct keys) map a top-level key \<open>k\<close>, not
  \<open>_data\<close> and not found on the class, to a plain mapping that can be wrapped.  Reading
  \<open>k\<close> once replaces the mapping by an instance and leaves the keys of the store as they
  are.  From then on the flattened view gives for every name other than \<open>k\<close> what the
  flattened view of the other entries gives: nothing inside the subtree under \<open>k\<close> is
  seen.  So a later read of a name that is not a top-level key, does not begin with an
  underscore and is not bound in the class returns what the other entries hold for it at
  some depth, and \<open>None\<close> if they hold nothing.  Where wrapping changes no existing
  dictionary, the other entries are those from before the read.  For the instance built
  from \<open>{"metadata": {"system": {"height": 11, "size": 10.7}}}\<close>: reading \<open>height\<close>
  returns 11; after \<open>metadata\<close> has been read, it returns \<open>None\<close>.
\<close>

theorem C9_materialized_subtree_hidden:
  assumes "map_of store k = Some (VDict d)" and "k \<noteq> ''_data''" and "\<not> on_class inh k"
    and "''self'' \<notin> set (dict_keys d)" and "wellshaped d"
    and "distinct (dict_keys store)"
  shows "(\<exists>w store'.
      read_attribute inh c (i, VDict store) k = Inr (Val (VData c w), (i, VDict store'), Suc c)
    \<and> map_of store' k = Some (VData c w)
    \<and> dict_keys store' = dict_keys store
    \<and> (\<forall>attr. attr \<noteq> k \<longrightarrow>
          map_of (flat store') attr = map_of (flat (dict_without k store')) attr)
    \<and> (\<forall>attr n. attr \<notin> set (dict_keys store') \<and> \<not> startswith_underscore attr
           \<and> attr \<notin> set class_attrs \<longrightarrow>
          read_attribute inh n (i, VDict store') attr =
            Inr (Val (case map_of (flat (dict_without k store')) attr of
                        Some v \<Rightarrow> v | None \<Rightarrow> VNone),
                 (i, VDict store'), n))
    \<and> (in_place_free d \<longrightarrow> dict_without k store' = dict_without k store))
    \<and> from_dict c supplied_store = Inr ((c, VDict supplied_store), Suc c)
    \<and> read_attribute inh (Suc c) (c, VDict supplied_store) ''height''
         = Inr (Val (VInt 11), (c, VDict supplied_store), Suc c)
    \<and> read_attribute inh (Suc c) (c, VDict supplied_store) ''metadata''
         = Inr (Val (VData (Suc c) wrapped_metadata),
                (c, VDict [(''metadata'', VData (Suc c) wrapped_metadata)]), Suc (Suc c))
    \<and> read_attribute inh (Suc (Suc c))
           (c, VDict [(''metadata'', VData (Suc c) wrapped_metadata)]) ''height''
         = Inr (Val VNone, (c, VDict [(''metadata'', VData (Suc c) wrapped_metadata)]),
                Suc (Suc c))"
proof -
  let ?w = "VDict (with_defaults d)"
  let ?new = "dict_set k (VData c ?w) store"
  have rd: "read_attribute inh c (i, VDict store) k
      = Inr (Val (VData c ?w), (i, VDict ?new), Suc c)"
    using assms(1-5) by (rule read_top_level_mapping)
  have st: "map_of ?new k = Some (VData c ?w)" by (simp add: map_of_dict_set)
  have kn: "dict_keys ?new = dict_keys store"
    using assms(1) by (rule dict_keys_dict_set_present)
  from assms(6) kn have dn: "distinct (dict_keys ?new)" by simp
  from distinct_only_entry [OF dn st]
  have only: "\<forall>v. (k, v) \<in> set ?new \<longrightarrow> (\<nexists>x. v = VDict x)" by auto
  have fl: "\<forall>attr. attr \<noteq> k \<longrightarrow>
          map_of (flat ?new) attr = map_of (flat (dict_without k ?new)) attr"
    using flat_without [OF only] by blast
  have rf: "\<forall>attr n. attr \<notin> set (dict_keys ?new) \<and> \<not> startswith_underscore attr
           \<and> attr \<notin> set class_attrs \<longrightarrow>
          read_attribute inh n (i, VDict ?new) attr =
            Inr (Val (case map_of (flat (dict_without k ?new)) attr of
                        Some v \<Rightarrow> v | None \<Rightarrow> VNone),
                 (i, VDict ?new), n)"
  proof (intro allI impI)
    fix attr n
    assume h: "attr \<notin> set (dict_keys ?new) \<and> \<not> startswith_underscore attr
           \<and> attr \<notin> set class_attrs"
    then have top: "map_of ?new attr = None" by (simp add: in_keys_iff)
    from h st have "attr \<noteq> k" by (auto simp: in_keys_iff)
    with fl have e: "map_of (flat ?new) attr = map_of (flat (dict_without k ?new)) attr"
      by blast
    have v: "flatten_dict (VDict ?new) = Inr (flat ?new)" by (simp add: flatten_dict_def)
    from h have nu: "\<not> startswith_underscore attr" and nc: "attr \<notin> set class_attrs"
      by simp_all
    show "read_attribute inh n (i, VDict ?new) attr =
            Inr (Val (case map_of (flat (dict_without k ?new)) attr of
                        Some v \<Rightarrow> v | None \<Rightarrow> VNone),
                 (i, VDict ?new), n)"
      using read_flattened [OF top nu nc v, of inh n i] by (simp add: e)
  qed
  have "dict_without k ?new = dict_without k store" by (rule dict_without_dict_set)
  then have ex: "in_place_free d \<longrightarrow> dict_without k ?new = dict_without k store" by simp
  from rd st kn fl rf ex have general: "\<exists>w store'.
      read_attribute inh c (i, VDict store) k = Inr (Val (VData c w), (i, VDict store'), Suc c)
    \<and> map_of store' k = Some (VData c w)
    \<and> dict_keys store' = dict_keys store
    \<and> (\<forall>attr. attr \<noteq> k \<longrightarrow>
          map_of (flat store') attr = map_of (flat (dict_without k store')) attr)
    \<and> (\<forall>attr n. attr \<notin> set (dict_keys store') \<and> \<not> startswith_underscore attr
           \<and> attr \<notin> set class_attrs \<longrightarrow>
          read_attribute inh n (i, VDict store') attr =
            Inr (Val (case map_of (flat (dict_without k store')) attr of
                        Some v \<Rightarrow> v | None \<Rightarrow> VNone),
                 (i, VDict store'), n))
    \<and> (in_place_free d \<longrightarrow> dict_without k store' = dict_without k store)"
    by - (intro exI conjI, assumption+)
  note e = supplied_store_reads [of c inh]
  from general e [THEN conjunct1] e [THEN conjunct2, THEN conjunct1]
    e [THEN conjunct2, THEN conjunct2, THEN conjunct1]
    e [THEN conjunct2, THEN conjunct2, THEN conjunct2, THEN conjunct2]
  show ?thesis by - (intro conjI, assumption+)
qed

text \<open>
  On the store of \<open>Data(user={"batch": 1121})\<close>: before \<open>user\<close> is read, \<open>batch\<close>
  reads 1121; afterwards it reads \<open>None\<close>.
\<close>

theorem C9_witness:
  "map_of user_store ''user'' = Some (VDict example_user)
   \<and> ''user'' \<noteq> ''_data'' \<and> \<not> on_class [] ''user''
   \<and> ''self'' \<notin> set (dict_keys example_user) \<and> wellshaped example_user
   \<and> distinct (dict_keys user_store)
   \<and> read_attribute [] 1 (0, VDict user_store) ''batch''
        = Inr (Val (VInt 1121), (0, VDict user_store), 1)
   \<and> (\<exists>w store'.
        read_attribute [] 1 (0, VDict user_store) ''user''
          = Inr (Val (VData 1 w), (0, VDict store'), Suc 1)
      \<and> read_attribute [] (Suc 1) (0, VDict store') ''batch''
          = Inr (Val VNone, (0, VDict store'), Suc 1))"
proof -
  have h: "map_of user_store ''user'' = Some (VDict example_user)" "''user'' \<noteq> ''_data''"
    "\<not> on_class [] ''user''" "''self'' \<notin> set (dict_keys example_user)"
    "wellshaped example_user" "distinct (dict_keys user_store)"
    by (simp_all add: user_store_def example_user_def on_class_def class_attrs_def
        dict_keys_def wellshaped_def)
  have f: "in_place_free example_user"
    by (simp add: in_place_free_def example_user_def)
  have v: "flatten_dict (VDict user_store) =
      Inr [(''batch'', VInt 1121), (''user'', VDict example_user), (''height'', VInt 100),
           (''size'', VInt 10), (''system'', VDict default_system),
           (''metadata'', VDict [(''system'', VDict default_system)])]"
    by (simp add: flatten_dict_def flat_def user_store_def example_user_def default_system_def)
  have before: "read_attribute [] 1 (0, VDict user_store) ''batch''
        = Inr (Val (VInt 1121), (0, VDict user_store), 1)"
    using read_flattened [OF _ _ _ v, of "''batch''" "[]" 1 0]
    by (simp add: class_attrs_def user_store_def)
  have others: "map_of (flat (dict_without ''user'' user_store)) ''batch'' = None"
    by (simp add: dict_without_def flat_def user_store_def default_system_def)
  from C9_materialized_subtree_hidden [OF h, of 1 0] obtain w store' where
    r1: "read_attribute [] 1 (0, VDict user_store) ''user''
          = Inr (Val (VData 1 w), (0, VDict store'), Suc 1)"
    and ks: "dict_keys store' = dict_keys user_store"
    and rf: "\<forall>attr n. attr \<notin> set (dict_keys store') \<and> \<not> startswith_underscore attr
           \<and> attr \<notin> set class_attrs \<longrightarrow>
          read_attribute [] n (0, VDict store') attr =
            Inr (Val (case map_of (flat (dict_without ''user'' store')) attr of
                        Some v \<Rightarrow> v | None \<Rightarrow> VNone),
                 (0, VDict store'), n)"
    and ex: "in_place_free example_user \<longrightarrow>
          dict_without ''user'' store' = dict_without ''user'' user_store"
    by (elim exE conjE) (rule that)
  from ks have "''batch'' \<notin> set (dict_keys store')"
    by (simp add: user_store_def dict_keys_def)
  with rf have "read_attribute [] (Suc 1) (0, VDict store') ''batch'' =
      Inr (Val (case map_of (flat (dict_without ''user'' store')) ''batch'' of
                  Some v \<Rightarrow> v | None \<Rightarrow> VNone), (0, VDict store'), Suc 1)"
    by (simp add: class_attrs_def)
  with ex f others have r2: "read_attribute [] (Suc 1) (0, VDict store') ''batch''
          = Inr (Val VNone, (0, VDict store'), Suc 1)"
    by simp
  from r1 r2 have "\<exists>w store'.
        read_attribute [] 1 (0, VDict user_store) ''user''
          = Inr (Val (VData 1 w), (0, VDict store'), Suc 1)
      \<and> read_attribute [] (Suc 1) (0, VDict store') ''batch''
          = Inr (Val VNone, (0, VDict store'), Suc 1)"
    by - (intro exI conjI, assumption+)
  with h before show ?thesis by - (intro conjI, assumption+)
qed

section \<open>Conversion\<close>

lemma convert_loop_spec:
  "convert_loop result items =
     (case convert_entries_spec items of
        Inl e \<Rightarrow> Inl e
      | Inr r \<Rightarrow> Inr (dict_of_items result r))"
proof (induction items arbitrary: result)
  case Nil
  show ?case by simp
next
  case (Cons p rest)
  obtain key "value" where p: "p = (key, value)" by (cases p)
  show ?case
    unfolding p
    by (cases "value")
       (simp_all add: Cons.IH convert_value_spec_def to_dict_def split: sum.splits)
qed

lemma dict_of_items_distinct:
  "distinct (map fst (d @ r)) \<Longrightarrow> dict_of_items d r = d @ r"
proof (induction r arbitrary: d)
  case Nil
  show ?case by simp
next
  case (Cons p r)
  obtain k v where p: "p = (k, v)" by (cases p)
  from Cons.prems have "k \<notin> set (dict_keys d)" by (auto simp: p dict_keys_def)
  then have s: "dict_set k v d = d @ [(k, v)]" by (rule dict_set_new)
  from Cons.prems have "distinct (map fst ((d @ [(k, v)]) @ r))" by (simp add: p)
  from Cons.IH [OF this] show ?case by (simp add: p s)
qed

lemma convert_entries_spec_keys:
  "convert_entries_spec s = Inr r \<Longrightarrow> map fst r = map fst s"
  by (induction s arbitrary: r rule: convert_entries_spec.induct)
     (auto split: sum.splits)

lemma to_dict_entries:
  assumes "distinct (dict_keys d)"
  shows "to_dict (i, VDict d) = convert_entries_spec d"
proof (cases "convert_entries_spec d")
  case (Inl e)
  then show ?thesis by (simp add: to_dict_def convert_loop_spec)
next
  case (Inr r)
  with assms have "distinct (map fst ([] @ r))"
    by (simp add: convert_entries_spec_keys dict_keys_def)
  then have "dict_of_items [] r = r" by (simp only: dict_of_items_distinct append_Nil)
  with Inr show ?thesis by (simp add: to_dict_def convert_loop_spec)
qed

lemma convert_entries_spec_member:
  "convert_entries_spec s = Inr r \<Longrightarrow> (k, v) \<in> set s \<Longrightarrow>
     \<exists>v'. convert_value_spec v = Inr v' \<and> (k, v') \<in> set r"
proof (induction s arbitrary: r)
  case Nil
  then show ?case by simp
next
  case (Cons p rest)
  obtain key "value" where p: "p = (key, value)" by (cases p)
  from Cons.prems(1) obtain x r' where
    x: "convert_value_spec value = Inr x" and r': "convert_entries_spec rest = Inr r'"
    and r: "r = (key, x) # r'"
    by (auto simp: p split: sum.splits)
  show ?case
  proof (cases "(k, v) = (key, value)")
    case True
    with x r show ?thesis by auto
  next
    case False
    with Cons.prems(2) have "(k, v) \<in> set rest" by (auto simp: p)
    from Cons.IH [OF r' this] r show ?thesis by auto
  qed
qed

lemma convert_entries_spec_lookup:
  "convert_entries_spec s = Inr r \<Longrightarrow> map_of s k = Some v \<Longrightarrow>
     \<exists>v'. convert_value_spec v = Inr v' \<and> map_of r k = Some v'"
  by (induction s arbitrary: r rule: convert_entries_spec.induct)
     (auto split: sum.splits if_splits)

lemma convert_entries_spec_succeeds:
  "(\<exists>r. convert_entries_spec s = Inr r) \<longleftrightarrow>
     (\<forall>(k, v) \<in> set s. \<exists>v'. convert_value_spec v = Inr v')"
proof (induction s)
  case Nil
  show ?case by simp
next
  case (Cons p rest)
  obtain key "value" where p: "p = (key, value)" by (cases p)
  show ?case
  proof (cases "convert_value_spec value")
    case (Inl e)
    then show ?thesis by (auto simp: p)
  next
    case (Inr x)
    with Cons.IH show ?thesis by (auto simp: p split: sum.splits)
  qed
qed

lemma convert_value_spec_other:
  "(\<nexists>m. v = VDict m) \<Longrightarrow> (\<nexists>j s. v = VData j s) \<Longrightarrow> convert_value_spec v = Inr v"
  by (cases v) (simp_all add: convert_value_spec_def)

lemma no_records_dict_set:
  "no_records v \<Longrightarrow> no_records_items result \<Longrightarrow> no_records_items (dict_set k v result)"
  by (induction result) auto

lemma convert_no_records:
  "(\<forall>r. convert_dataclasses_to_dict v = Inr r \<longrightarrow> no_records_items r)"
  "(no_records_items result \<longrightarrow> (\<forall>r. convert_loop result items = Inr r \<longrightarrow> no_records_items r))"
proof (induction v and result items rule: convert_dataclasses_to_dict_convert_loop.induct)
  case (4 result key "value" rest)
  show ?case
  proof (intro impI allI)
    fix r
    assume nr: "no_records_items result"
      and c: "convert_loop result ((key, value) # rest) = Inr r"
    show "no_records_items r"
    proof (cases "value")
      case (VDict d)
      with c obtain x where x: "convert_dataclasses_to_dict value = Inr x"
        and l: "convert_loop (dict_set key (VDict x) result) rest = Inr r"
        by (auto split: sum.splits)
      from 4(7) [OF VDict] x have "no_records (VDict x)" by simp
      then have "no_records_items (dict_set key (VDict x) result)"
        using nr by (rule no_records_dict_set)
      with 4(8) [OF VDict x] l show ?thesis by blast
    next
      case (VData j d)
      with c obtain x where x: "convert_dataclasses_to_dict d = Inr x"
        and l: "convert_loop (dict_set key (VDict x) result) rest = Inr r"
        by (auto split: sum.splits)
      from 4(9) [OF VData] x have "no_records (VDict x)" by simp
      then have "no_records_items (dict_set key (VDict x) result)"
        using nr by (rule no_records_dict_set)
      with 4(10) [OF VData x] l show ?thesis by blast
    next
      case VNone
      with c nr 4(1) show ?thesis by (auto intro: no_records_dict_set)
    next
      case (VBool b)
      with c nr 4(2) show ?thesis by (auto intro: no_records_dict_set)
    next
      case (VInt n)
      with c nr 4(3) show ?thesis by (auto intro: no_records_dict_set)
    next
      case (VFloat q)
      with c nr 4(4) show ?thesis by (auto intro: no_records_dict_set)
    next
      case (VStr s)
      with c nr 4(5) show ?thesis by (auto intro: no_records_dict_set)
    next
      case (VList xs)
      with c nr 4(6) show ?thesis by (auto intro: no_records_dict_set)
    qed
  qed
qed simp_all

lemma to_dict_no_records: "to_dict self = Inr r \<Longrightarrow> no_records (VDict r)"
  using convert_no_records(1) [of "snd self"] by (simp add: to_dict_def)

text \<open>
  C6.  For a store (a dictionary, so with distinct keys) \<open>to_dict\<close> is the rule of the
  specification applied to the entries in order.  When it returns, the result has the keys
  of the store in the same order and is plain (no instance is reached through its
  dictionaries); under a key whose value was a mapping it has the
  conversion of that mapping, under a key whose value was an instance the result of that
  instance's own \<open>to_dict\<close>, and under every other key the value itself, a list in
  particular, whatever the list holds.  It returns exactly when the rule succeeds on every
  entry.
\<close>

theorem C6_asymmetric_conversion:
  assumes "distinct (dict_keys d)"
  shows "to_dict (i, VDict d) = convert_entries_spec d
    \<and> (\<forall>r. to_dict (i, VDict d) = Inr r \<longrightarrow>
          dict_keys r = dict_keys d
        \<and> no_records (VDict r)
        \<and> (\<forall>k m. map_of d k = Some (VDict m) \<longrightarrow>
              (\<exists>x. convert_dataclasses_to_dict (VDict m) = Inr x \<and> map_of r k = Some (VDict x)))
        \<and> (\<forall>k j s. map_of d k = Some (VData j s) \<longrightarrow>
              (\<exists>x. to_dict (j, s) = Inr x \<and> map_of r k = Some (VDict x)))
        \<and> (\<forall>k v. map_of d k = Some v \<and> (\<nexists>m. v = VDict m) \<and> (\<nexists>j s. v = VData j s) \<longrightarrow>
              map_of r k = Some v)
        \<and> (\<forall>k xs. map_of d k = Some (VList xs) \<longrightarrow> map_of r k = Some (VList xs)))
    \<and> ((\<exists>r. to_dict (i, VDict d) = Inr r) \<longleftrightarrow>
          (\<forall>(k, v) \<in> set d. \<exists>v'. convert_value_spec v = Inr v'))"
proof -
  have eq: "to_dict (i, VDict d) = convert_entries_spec d"
    using assms by (rule to_dict_entries)
  have per: "\<forall>r. to_dict (i, VDict d) = Inr r \<longrightarrow>
          dict_keys r = dict_keys d
        \<and> no_records (VDict r)
        \<and> (\<forall>k m. map_of d k = Some (VDict m) \<longrightarrow>
              (\<exists>x. convert_dataclasses_to_dict (VDict m) = Inr x \<and> map_of r k = Some (VDict x)))
        \<and> (\<forall>k j s. map_of d k = Some (VData j s) \<longrightarrow>
              (\<exists>x. to_dict (j, s) = Inr x \<and> map_of r k = Some (VDict x)))
        \<and> (\<forall>k v. map_of d k = Some v \<and> (\<nexists>m. v = VDict m) \<and> (\<nexists>j s. v = VData j s) \<longrightarrow>
              map_of r k = Some v)
        \<and> (\<forall>k xs. map_of d k = Some (VList xs) \<longrightarrow> map_of r k = Some (VList xs))"
  proof (intro allI impI)
    fix r
    assume t: "to_dict (i, VDict d) = Inr r"
    with eq have r: "convert_entries_spec d = Inr r" by simp
    from t have plain: "no_records (VDict r)" by (rule to_dict_no_records)
    have keys: "dict_keys r = dict_keys d"
      using convert_entries_spec_keys [OF r] by (simp add: dict_keys_def)
    have m: "\<forall>k m. map_of d k = Some (VDict m) \<longrightarrow>
              (\<exists>x. convert_dataclasses_to_dict (VDict m) = Inr x \<and> map_of r k = Some (VDict x))"
    proof (intro allI impI)
      fix k m
      assume "map_of d k = Some (VDict m)"
      from convert_entries_spec_lookup [OF r this]
      show "\<exists>x. convert_dataclasses_to_dict (VDict m) = Inr x \<and> map_of r k = Some (VDict x)"
        by (cases "convert_dataclasses_to_dict (VDict m)")
           (auto simp: convert_value_spec_def)
    qed
    have i: "\<forall>k j s. map_of d k = Some (VData j s) \<longrightarrow>
              (\<exists>x. to_dict (j, s) = Inr x \<and> map_of r k = Some (VDict x))"
    proof (intro allI impI)
      fix k j s
      assume "map_of d k = Some (VData j s)"
      from convert_entries_spec_lookup [OF r this]
      show "\<exists>x. to_dict (j, s) = Inr x \<and> map_of r k = Some (VDict x)"
        by (cases "to_dict (j, s)") (auto simp: convert_value_spec_def)
    qed
    have o: "\<forall>k v. map_of d k = Some v \<and> (\<nexists>m. v = VDict m) \<and> (\<nexists>j s. v = VData j s) \<longrightarrow>
              map_of r k = Some v"
    proof (intro allI impI)
      fix k v
      assume h: "map_of d k = Some v \<and> (\<nexists>m. v = VDict m) \<and> (\<nexists>j s. v = VData j s)"
      then have "convert_value_spec v = Inr v" by (simp add: convert_value_spec_other)
      with convert_entries_spec_lookup [OF r, of k v] h show "map_of r k = Some v" by auto
    qed
    from o have l: "\<forall>k xs. map_of d k = Some (VList xs) \<longrightarrow> map_of r k = Some (VList xs)"
      by simp
    from keys plain m i o l show "dict_keys r = dict_keys d
        \<and> no_records (VDict r)
        \<and> (\<forall>k m. map_of d k = Some (VDict m) \<longrightarrow>
              (\<exists>x. convert_dataclasses_to_dict (VDict m) = Inr x \<and> map_of r k = Some (VDict x)))
        \<and> (\<forall>k j s. map_of d k = Some (VData j s) \<longrightarrow>
              (\<exists>x. to_dict (j, s) = Inr x \<and> map_of r k = Some (VDict x)))
        \<and> (\<forall>k v. map_of d k = Some v \<and> (\<nexists>m. v = VDict m) \<and> (\<nexists>j s. v = VData j s) \<longrightarrow>
              map_of r k = Some v)
        \<and> (\<forall>k xs. map_of d k = Some (VList xs) \<longrightarrow> map_of r k = Some (VList xs))"
      by - (intro conjI, assumption+)
  qed
  have ok: "(\<exists>r. to_dict (i, VDict d) = Inr r) \<longleftrightarrow>
          (\<forall>(k, v) \<in> set d. \<exists>v'. convert_value_spec v = Inr v')"
    unfolding eq by (rule convert_entries_spec_succeeds)
  from eq per ok show ?thesis by - (intro conjI, assumption+)
qed

text \<open>
  On \<open>mixed_store\<close>: the instance under \<open>inner\<close> and the one inside the mapping
  \<open>m\<close> are converted, the one inside the list \<open>xs\<close> is not.
\<close>

theorem C6_witness:
  "distinct (dict_keys mixed_store)
   \<and> to_dict (0, VDict mixed_store) =
       Inr [(''n'', VInt 1),
            (''xs'', VList [VData 7 (VDict [])]),
            (''inner'', VDict [(''a'', VInt 2)]),
            (''m'', VDict [(''w'', VDict [])])]"
proof -
  have d: "distinct (dict_keys mixed_store)"
    by (simp add: mixed_store_def dict_keys_def)
  from C6_asymmetric_conversion [OF d, of 0]
  have "to_dict (0, VDict mixed_store) = convert_entries_spec mixed_store" by blast
  also have "\<dots> = Inr [(''n'', VInt 1),
            (''xs'', VList [VData 7 (VDict [])]),
            (''inner'', VDict [(''a'', VInt 2)]),
            (''m'', VDict [(''w'', VDict [])])]"
    by (simp add: mixed_store_def convert_value_spec_def to_dict_def)
  finally show ?thesis using d by simp
qed

lemma plain_converts:
  "(wf_val v \<longrightarrow> no_records v \<longrightarrow> convert_value_spec v = Inr v)"
  "(wf_items s \<longrightarrow> no_records_items s \<longrightarrow> convert_entries_spec s = Inr s)"
proof (induction v and s rule: wf_val_wf_items.induct)
  case (1 d)
  show ?case
  proof (intro impI)
    assume w: "wf_val (VDict d)" and n: "no_records (VDict d)"
    with 1 have e: "convert_entries_spec d = Inr d" by simp
    from w have "distinct (map fst ([] @ d))" by simp
    then have "dict_of_items [] d = d" by (simp only: dict_of_items_distinct append_Nil)
    with e show "convert_value_spec (VDict d) = Inr (VDict d)"
      by (simp add: convert_value_spec_def convert_loop_spec)
  qed
qed (simp_all add: convert_value_spec_def)

lemma defines_defaults_fixed:
  assumes "defines_defaults m"
  shows "wellshaped m" and "with_defaults m = m"
proof -
  from assms obtain mv where mv: "map_of m ''metadata'' = Some mv"
    by (cases "map_of m ''metadata''") (simp_all add: defines_defaults_def)
  with assms obtain md where md: "map_of m ''metadata'' = Some (VDict md)"
    by (cases mv) (simp_all add: defines_defaults_def)
  with assms obtain sv where sv: "map_of md ''system'' = Some sv"
    by (cases "map_of md ''system''") (simp_all add: defines_defaults_def)
  with assms md obtain sy where sy: "map_of md ''system'' = Some (VDict sy)"
    by (cases sv) (simp_all add: defines_defaults_def)
  from assms md sy have h: "''height'' \<in> set (dict_keys sy)" and z: "''size'' \<in> set (dict_keys sy)"
    by (simp_all add: defines_defaults_def)
  show "wellshaped m" by (simp add: wellshaped_def md sy)
  show "with_defaults m = m"
    by (simp add: with_defaults_def sub_dict_def md sy setdefault_def h z dict_set_same)
qed

text \<open>
  The round trip.  Let \<open>m\<close> be a plain nested mapping: dictionaries with distinct keys,
  no instance of \<open>Data\<close> reached through them.  If \<open>m\<close> defines
  \<open>metadata.system.height\<close> and \<open>metadata.system.size\<close> and has no top-level key
  \<open>self\<close>, then \<open>from_dict\<close> builds an instance whose store is \<open>m\<close>, and
  \<open>to_dict\<close> of that instance returns \<open>m\<close>.
\<close>

theorem round_trip_without_self:
  assumes "wf_val (VDict m)" and "no_records (VDict m)" and "defines_defaults m"
    and "''self'' \<notin> set (dict_keys m)"
  shows "from_dict c m = Inr ((c, VDict m), Suc c) \<and> to_dict (c, VDict m) = Inr m"
proof -
  have "from_dict c m = Inr ((c, VDict m), Suc c)"
    using Data_init_ok [OF assms(4) defines_defaults_fixed(1) [OF assms(3)], of c]
    by (simp add: from_dict_def defines_defaults_fixed(2) [OF assms(3)])
  moreover from plain_converts(1) [of "VDict m"] assms(1,2)
  have "convert_value_spec (VDict m) = Inr (VDict m)" by blast
  then have "to_dict (c, VDict m) = Inr m"
    by (cases "convert_dataclasses_to_dict (VDict m)")
       (simp_all add: convert_value_spec_def to_dict_def)
  ultimately show ?thesis by simp
qed

text \<open>On the example dictionary of the source.\<close>

theorem round_trip_example:
  "wf_val (VDict example_store) \<and> no_records (VDict example_store)
   \<and> defines_defaults example_store \<and> ''self'' \<notin> set (dict_keys example_store)
   \<and> from_dict 0 example_store = Inr ((0, VDict example_store), 1)
   \<and> to_dict (0, VDict example_store) = Inr example_store"
proof -
  have h: "wf_val (VDict example_store)" "no_records (VDict example_store)"
    "defines_defaults example_store" "''self'' \<notin> set (dict_keys example_store)"
    by (simp_all add: example_store_def example_metadata_def example_system_def
        example_user_def defines_defaults_def dict_keys_def)
  from round_trip_without_self [OF h, of 0] h show ?thesis by simp
qed

text \<open>
  C3.  The round trip is claimed for every plain nested mapping that defines the two
  defaults.  The mapping \<open>{"self": 1, "metadata": {"system": {"height": 100, "size": 10}}}\<close>
  is one, and \<open>from_dict\<close> raises TypeError on it instead of building the instance:
  \<open>cls(**data_dict)\<close> passes \<open>self\<close> as a keyword to \<open>__init__(self, **kwargs)\<close>,
  where it collides with the first parameter.
\<close>

theorem C3_self_key_raises:
  "wf_val (VDict ((''self'', VInt 1) # default_store))
   \<and> no_records (VDict ((''self'', VInt 1) # default_store))
   \<and> defines_defaults ((''self'', VInt 1) # default_store)
   \<and> from_dict 0 ((''self'', VInt 1) # default_store) = Inl TypeError"
  by (simp add: default_store_def default_system_def defines_defaults_def dict_keys_def
      from_dict_def Data_init_def)

section \<open>Reads that change the conversion\<close>

lemma wf_items_lookup: "wf_items s \<Longrightarrow> map_of s k = Some v \<Longrightarrow> wf_val v"
  by (induction s) (auto split: if_splits)

lemma convert_entries_spec_update:
  "convert_entries_spec s = Inr r \<Longrightarrow> convert_value_spec v = Inr v' \<Longrightarrow>
     convert_entries_spec (dict_set k v s) = Inr (dict_set k v' r)"
proof (induction s arbitrary: r)
  case Nil
  then show ?case by simp
next
  case (Cons p rest)
  obtain key "value" where p: "p = (key, value)" by (cases p)
  from Cons.prems(1) obtain x r' where
    x: "convert_value_spec value = Inr x" and r': "convert_entries_spec rest = Inr r'"
    and r: "r = (key, x) # r'"
    by (auto simp: p split: sum.splits)
  from Cons.IH [OF r' Cons.prems(2)] x r' Cons.prems(2) show ?case
    by (simp add: p r)
qed

lemma convert_entries_spec_None:
  assumes "convert_entries_spec s = Inr r" and "map_of s k = None"
  shows "map_of r k = None"
proof -
  from assms(2) have "k \<notin> set (map fst s)" by (simp add: map_of_eq_None_iff)
  with convert_entries_spec_keys [OF assms(1)] have "k \<notin> set (map fst r)" by simp
  then show ?thesis by (simp add: map_of_eq_None_iff)
qed

lemma convert_mapping_entries:
  assumes "distinct (map fst x)"
  shows "convert_loop [] x = convert_entries_spec x"
  using to_dict_entries [of x 0] assms by (simp add: to_dict_def dict_keys_def)

lemma convert_value_spec_mapping:
  "distinct (map fst x) \<Longrightarrow> convert_value_spec (VDict x) = map_sum id VDict (convert_entries_spec x)"
  by (simp add: convert_value_spec_def convert_mapping_entries)

lemma convert_value_spec_instance:
  "distinct (map fst x) \<Longrightarrow>
     convert_value_spec (VData j (VDict x)) = map_sum id VDict (convert_entries_spec x)"
  by (simp add: convert_value_spec_def to_dict_def convert_mapping_entries)

lemma lacks_system_wellshaped: "lacks_system d \<Longrightarrow> wellshaped d"
  by (cases "map_of d ''metadata''")
     (auto simp: lacks_system_def wellshaped_def in_keys_iff split: val.splits)

lemma lacks_system_sub: "lacks_system d \<Longrightarrow> map_of (sub_dict d ''metadata'') ''system'' = None"
  by (cases "map_of d ''metadata''")
     (auto simp: lacks_system_def sub_dict_def in_keys_iff split: val.splits)

lemma with_defaults_lacking:
  assumes "lacks_system d"
  shows "with_defaults d =
     dict_set ''metadata''
       (VDict (dict_set ''system'' (VDict default_system) (sub_dict d ''metadata''))) d"
proof -
  from lacks_system_sub [OF assms]
  have "sub_dict (sub_dict d ''metadata'') ''system'' = []"
    by (simp add: sub_dict_def [of "sub_dict d ''metadata''"])
  then show ?thesis
    by (simp add: with_defaults_def setdefault_def dict_keys_def default_system_def)
qed

lemma default_system_converts: "convert_value_spec (VDict default_system) = Inr (VDict default_system)"
  by (simp add: convert_value_spec_def default_system_def)

lemma sub_dict_converts:
  assumes "convert_entries_spec d = Inr rd" and "wf_items d"
  shows "\<exists>rm. convert_entries_spec (sub_dict d k) = Inr rm \<and> distinct (map fst (sub_dict d k))
           \<and> (map_of (sub_dict d k) ''system'' = None \<longrightarrow> map_of rm ''system'' = None)
           \<and> (\<forall>x. map_of d k = Some (VDict x) \<longrightarrow> map_of rd k = Some (VDict rm))
           \<and> (map_of d k = None \<longrightarrow> map_of rd k = None)"
proof (cases "\<exists>x. map_of d k = Some (VDict x)")
  case True
  then obtain x where x: "map_of d k = Some (VDict x)" by blast
  from wf_items_lookup [OF assms(2) x] have dx: "distinct (map fst x)" by simp
  from convert_entries_spec_lookup [OF assms(1) x] obtain v' where
    v': "convert_value_spec (VDict x) = Inr v'" and l: "map_of rd k = Some v'"
    by blast
  from v' dx obtain rm where rm: "convert_entries_spec x = Inr rm" and "v' = VDict rm"
    by (cases "convert_entries_spec x") (auto simp: convert_value_spec_mapping)
  with l x dx convert_entries_spec_None [OF rm, of "''system''"] show ?thesis
    by (simp add: sub_dict_def)
next
  case False
  then have e: "sub_dict d k = []"
    by (cases "map_of d k") (auto simp: sub_dict_def split: val.splits)
  with False convert_entries_spec_None [OF assms(1), of k] show ?thesis by simp
qed


lemma distinct_map_fst_dict_set: "distinct (map fst s) \<Longrightarrow> distinct (map fst (dict_set k v s))"
  using distinct_dict_set [of s k v] by (simp add: dict_keys_def)

text \<open>
  C10 (as amended).  Take an instance whose store is a well-formed dictionary and on which
  \<open>to_dict\<close> succeeds, and a top-level key, not \<open>_data\<close> and not found on the class,
  bound to a plain mapping that has no key \<open>self\<close> and lacks \<open>metadata.system\<close> (its
  \<open>metadata\<close> is absent, or is a mapping without \<open>system\<close>).  Reading the key once
  succeeds; afterwards \<open>to_dict\<close> succeeds as well, its result has the keys it had
  before, and under that key it has \<open>metadata.system\<close> equal to
  \<open>{"height": 100, "size": 10}\<close>; so the result differs from the one before the read.
  Where the mapping has no \<open>metadata\<close>, so that wrapping changes no existing dictionary,
  every other key of the result is as before the read.
\<close>

theorem C10_read_injects_defaults:
  assumes k: "map_of store k = Some (VDict d)" and nd: "k \<noteq> ''_data''"
    and nc: "\<not> on_class inh k" and ns: "''self'' \<notin> set (dict_keys d)"
    and ls: "lacks_system d" and wf: "wf_val (VDict store)"
    and b: "to_dict (i, VDict store) = Inr before"
  shows "\<exists>w self' after under meta.
      read_attribute inh c (i, VDict store) k = Inr (Val w, self', Suc c)
    \<and> to_dict self' = Inr after
    \<and> dict_keys after = dict_keys before
    \<and> map_of after k = Some (VDict under)
    \<and> map_of under ''metadata'' = Some (VDict meta)
    \<and> map_of meta ''system'' = Some (VDict default_system)
    \<and> (map_of d ''metadata'' = None \<longrightarrow>
          (\<forall>k'. k' \<noteq> k \<longrightarrow> map_of after k' = map_of before k'))
    \<and> after \<noteq> before"
proof -
  let ?md = "dict_set ''system'' (VDict default_system) (sub_dict d ''metadata'')"
  let ?new = "dict_set ''metadata'' (VDict ?md) d"
  let ?w = "VData c (VDict ?new)"
  let ?store = "dict_set k ?w store"
  from wf have ds: "distinct (map fst store)" and wi: "wf_items store" by simp_all
  from wf_items_lookup [OF wi k] have dd: "distinct (map fst d)" and wd: "wf_items d"
    by simp_all
  have wdf: "with_defaults d = ?new" by (rule with_defaults_lacking [OF ls])
  have rd: "read_attribute inh c (i, VDict store) k = Inr (Val ?w, (i, VDict ?store), Suc c)"
    using read_top_level_mapping [OF k nd nc ns lacks_system_wellshaped [OF ls], of c i]
    by (simp add: wdf)
  from b ds have cb: "convert_entries_spec store = Inr before"
    by (simp add: to_dict_entries dict_keys_def)
  from convert_entries_spec_lookup [OF cb k] dd obtain conv where
    cd: "convert_entries_spec d = Inr conv" and lb: "map_of before k = Some (VDict conv)"
    by (cases "convert_entries_spec d") (auto simp: convert_value_spec_mapping)
  from sub_dict_converts [OF cd wd, of "''metadata''"] obtain rm where
    cm: "convert_entries_spec (sub_dict d ''metadata'') = Inr rm"
    and dm: "distinct (map fst (sub_dict d ''metadata''))"
    and sn: "map_of (sub_dict d ''metadata'') ''system'' = None \<longrightarrow> map_of rm ''system'' = None"
    and lm: "\<forall>x. map_of d ''metadata'' = Some (VDict x) \<longrightarrow> map_of conv ''metadata'' = Some (VDict rm)"
    and ln: "map_of d ''metadata'' = None \<longrightarrow> map_of conv ''metadata'' = None"
    by (elim exE conjE) (rule that)
  let ?meta = "dict_set ''system'' (VDict default_system) rm"
  let ?under = "dict_set ''metadata'' (VDict ?meta) conv"
  let ?after = "dict_set k (VDict ?under) before"
  have c1: "convert_entries_spec ?md = Inr ?meta"
    by (rule convert_entries_spec_update [OF cm default_system_converts])
  have c2: "convert_value_spec (VDict ?md) = Inr (VDict ?meta)"
    by (simp add: convert_value_spec_mapping [OF distinct_map_fst_dict_set [OF dm]] c1)
  have c3: "convert_entries_spec ?new = Inr ?under"
    by (rule convert_entries_spec_update [OF cd c2])
  have c4: "convert_value_spec ?w = Inr (VDict ?under)"
    by (simp add: convert_value_spec_instance [OF distinct_map_fst_dict_set [OF dd]] c3)
  have c5: "convert_entries_spec ?store = Inr ?after"
    by (rule convert_entries_spec_update [OF cb c4])
  have td: "to_dict (i, VDict ?store) = Inr ?after"
    using distinct_map_fst_dict_set [OF ds, of k ?w]
    by (simp add: to_dict_entries dict_keys_def c5)
  have l1: "map_of ?after k = Some (VDict ?under)" by (simp add: map_of_dict_set)
  have l2: "map_of ?under ''metadata'' = Some (VDict ?meta)" by (simp add: map_of_dict_set)
  have l3: "map_of ?meta ''system'' = Some (VDict default_system)" by (simp add: map_of_dict_set)
  have l4: "\<forall>k'. k' \<noteq> k \<longrightarrow> map_of ?after k' = map_of before k'"
    by (simp add: map_of_dict_set)
  have ne: "?after \<noteq> before"
  proof
    assume "?after = before"
    with l1 lb have "?under = conv" by simp
    with l2 have m: "map_of conv ''metadata'' = Some (VDict ?meta)" by simp
    show False
    proof (cases "map_of d ''metadata''")
      case None
      with ln m show False by simp
    next
      case (Some v)
      with ls obtain x where "v = VDict x" by (cases v) (simp_all add: lacks_system_def)
      with Some lm m have "rm = ?meta" by simp
      with l3 have "map_of rm ''system'' = Some (VDict default_system)" by simp
      with sn lacks_system_sub [OF ls] show False by simp
    qed
  qed
  from l4 have fr: "map_of d ''metadata'' = None \<longrightarrow>
          (\<forall>k'. k' \<noteq> k \<longrightarrow> map_of ?after k' = map_of before k')"
    by simp
  have lk: "dict_keys ?after = dict_keys before"
    using lb by (rule dict_keys_dict_set_present)
  from rd td lk l1 l2 l3 fr ne show ?thesis by - (intro exI conjI, assumption+)
qed


text \<open>On the instance \<open>Data(user={"batch": 1121})\<close>, reading \<open>user\<close>.\<close>

theorem C10_witness:
  "map_of user_store ''user'' = Some (VDict example_user)
   \<and> ''user'' \<noteq> ''_data'' \<and> \<not> on_class [] ''user''
   \<and> ''self'' \<notin> set (dict_keys example_user) \<and> lacks_system example_user
   \<and> wf_val (VDict user_store)
   \<and> to_dict (0, VDict user_store) = Inr user_store
   \<and> (\<exists>w self' after under meta.
        read_attribute [] 1 (0, VDict user_store) ''user'' = Inr (Val w, self', Suc 1)
      \<and> to_dict self' = Inr after
      \<and> map_of after ''user'' = Some (VDict under)
      \<and> map_of under ''metadata'' = Some (VDict meta)
      \<and> map_of meta ''system'' = Some (VDict default_system)
      \<and> after \<noteq> user_store)"
proof -
  have h: "map_of user_store ''user'' = Some (VDict example_user)" "''user'' \<noteq> ''_data''"
    "\<not> on_class [] ''user''" "''self'' \<notin> set (dict_keys example_user)"
    "lacks_system example_user" "wf_val (VDict user_store)"
    by (simp_all add: user_store_def example_user_def default_system_def on_class_def
        class_attrs_def dict_keys_def lacks_system_def)
  have t: "to_dict (0, VDict user_store) = Inr user_store"
    by (simp add: to_dict_def user_store_def example_user_def default_system_def)
  from C10_read_injects_defaults [OF h t, of 1] obtain w self' after under meta where
    "read_attribute [] 1 (0, VDict user_store) ''user'' = Inr (Val w, self', Suc 1)"
    "to_dict self' = Inr after" "map_of after ''user'' = Some (VDict under)"
    "map_of under ''metadata'' = Some (VDict meta)"
    "map_of meta ''system'' = Some (VDict default_system)" "after \<noteq> user_store"
    by (elim exE conjE) (rule that)
  then have "\<exists>w self' after under meta.
        read_attribute [] 1 (0, VDict user_store) ''user'' = Inr (Val w, self', Suc 1)
      \<and> to_dict self' = Inr after
      \<and> map_of after ''user'' = Some (VDict under)
      \<and> map_of under ''metadata'' = Some (VDict meta)
      \<and> map_of meta ''system'' = Some (VDict default_system)
      \<and> after \<noteq> user_store"
    by - (intro exI conjI, assumption+)
  with h t show ?thesis by - (intro conjI, assumption+)
qed

text \<open>
  The claim speaks of every top-level mapping value that lacks \<open>metadata.system\<close>.  On
  the instance \<open>Data(cfg={"metadata": None})\<close> the value of \<open>cfg\<close> lacks it, and
  reading \<open>cfg\<close> raises TypeError, so no later \<open>to_dict\<close> shows injected defaults.
\<close>

theorem C10_counterexample:
  "Data_init 0 [(''cfg'', VDict [(''metadata'', VNone)])]
     = Inr ((0, VDict [(''cfg'', VDict [(''metadata'', VNone)]),
                       (''metadata'', VDict [(''system'', VDict default_system)])]), 1)
   \<and> map_of (sub_dict [(''metadata'', VNone)] ''metadata'') ''system'' = None
   \<and> read_attribute [] 1
        (0, VDict [(''cfg'', VDict [(''metadata'', VNone)]),
                   (''metadata'', VDict [(''system'', VDict default_system)])]) ''cfg''
     = Inl TypeError"
  by (simp add: Data_init_def set_default_values_def ensure_key_def setdefault_def dict_keys_def
      default_system_def read_attribute_def object_getattribute_def on_class_def class_attrs_def
      getattr_hook_def sub_dict_def)

end
